theory Spec2Isabelle
  imports Complex_Main "HOL-Library.Word"
begin

section \<open>JavaScript values\<close>

text \<open>
  The extension is JavaScript. Its strings are sequences of UTF-16 code units, its
  numbers are IEEE doubles, and the series it builds hold numbers, \<open>null\<close> and (in one
  corner) \<open>undefined\<close>.

  Numbers are modelled exactly: a finite number is a rational, and the three special
  doubles \<open>NaN\<close>, \<open>Infinity\<close> and \<open>-Infinity\<close> are constructors of their own. Rounding,
  overflow of finite results and the sign of zero are not modelled: arithmetic on finite
  numbers is exact and \<open>-0\<close> is \<open>0\<close>.
\<close>

type_synonym code_unit = "16 word"
type_synonym jsstring = "code_unit list"

definition js :: "string \<Rightarrow> jsstring" where
  "js s = map of_char s"

datatype number = NaN | Fin rat | PosInf | NegInf

datatype jsval = Undefined | Null | Num number

text \<open>\<open>ToNumber\<close> of the language: \<open>undefined\<close> is \<open>NaN\<close>, \<open>null\<close> is \<open>0\<close>.\<close>

fun ToNumber :: "jsval \<Rightarrow> number" where
  "ToNumber Undefined = NaN"
| "ToNumber Null = Fin 0"
| "ToNumber (Num n) = n"

text \<open>\<open>ToBoolean\<close>: the falsy values among these are \<open>undefined\<close>, \<open>null\<close>, \<open>0\<close> and \<open>NaN\<close>.\<close>

fun ToBoolean :: "jsval \<Rightarrow> bool" where
  "ToBoolean Undefined = False"
| "ToBoolean Null = False"
| "ToBoolean (Num NaN) = False"
| "ToBoolean (Num (Fin r)) = (r \<noteq> 0)"
| "ToBoolean (Num PosInf) = True"
| "ToBoolean (Num NegInf) = True"

fun isNaN :: "number \<Rightarrow> bool" where
  "isNaN NaN = True"
| "isNaN (Fin r) = False"
| "isNaN PosInf = False"
| "isNaN NegInf = False"

subsection \<open>Arithmetic of numbers\<close>

fun num_neg :: "number \<Rightarrow> number" where
  "num_neg NaN = NaN"
| "num_neg (Fin r) = Fin (- r)"
| "num_neg PosInf = NegInf"
| "num_neg NegInf = PosInf"

fun num_add :: "number \<Rightarrow> number \<Rightarrow> number" where
  "num_add NaN y = NaN"
| "num_add (Fin a) NaN = NaN"
| "num_add (Fin a) (Fin b) = Fin (a + b)"
| "num_add (Fin a) PosInf = PosInf"
| "num_add (Fin a) NegInf = NegInf"
| "num_add PosInf NaN = NaN"
| "num_add PosInf (Fin b) = PosInf"
| "num_add PosInf PosInf = PosInf"
| "num_add PosInf NegInf = NaN"
| "num_add NegInf NaN = NaN"
| "num_add NegInf (Fin b) = NegInf"
| "num_add NegInf PosInf = NaN"
| "num_add NegInf NegInf = NegInf"

definition num_sub :: "number \<Rightarrow> number \<Rightarrow> number" where
  "num_sub x y = num_add x (num_neg y)"

text \<open>The infinity with the sign of a non-zero rational.\<close>

definition inf_of_sign :: "rat \<Rightarrow> number" where
  "inf_of_sign r = (if 0 < r then PosInf else NegInf)"

fun num_mul :: "number \<Rightarrow> number \<Rightarrow> number" where
  "num_mul NaN y = NaN"
| "num_mul (Fin a) NaN = NaN"
| "num_mul (Fin a) (Fin b) = Fin (a * b)"
| "num_mul (Fin a) PosInf = (if a = 0 then NaN else inf_of_sign a)"
| "num_mul (Fin a) NegInf = (if a = 0 then NaN else inf_of_sign (- a))"
| "num_mul PosInf NaN = NaN"
| "num_mul PosInf (Fin b) = (if b = 0 then NaN else inf_of_sign b)"
| "num_mul PosInf PosInf = PosInf"
| "num_mul PosInf NegInf = NegInf"
| "num_mul NegInf NaN = NaN"
| "num_mul NegInf (Fin b) = (if b = 0 then NaN else inf_of_sign (- b))"
| "num_mul NegInf PosInf = NegInf"
| "num_mul NegInf NegInf = PosInf"

text \<open>
  Division: a finite number over zero is an infinity (\<open>0/0\<close> is \<open>NaN\<close>), a finite number
  over an infinity is zero, an infinity over an infinity is \<open>NaN\<close>. The zero divisor is
  taken as \<open>+0\<close>.
\<close>

fun num_div :: "number \<Rightarrow> number \<Rightarrow> number" where
  "num_div NaN y = NaN"
| "num_div (Fin a) NaN = NaN"
| "num_div (Fin a) (Fin b) =
     (if b = 0 then (if a = 0 then NaN else inf_of_sign a) else Fin (a / b))"
| "num_div (Fin a) PosInf = Fin 0"
| "num_div (Fin a) NegInf = Fin 0"
| "num_div PosInf NaN = NaN"
| "num_div PosInf (Fin b) = (if 0 \<le> b then PosInf else NegInf)"
| "num_div PosInf PosInf = NaN"
| "num_div PosInf NegInf = NaN"
| "num_div NegInf NaN = NaN"
| "num_div NegInf (Fin b) = (if 0 \<le> b then NegInf else PosInf)"
| "num_div NegInf PosInf = NaN"
| "num_div NegInf NegInf = NaN"

text \<open>The larger and the smaller of two numbers that are not \<open>NaN\<close>.\<close>

fun num_le :: "number \<Rightarrow> number \<Rightarrow> bool" where
  "num_le NegInf y = True"
| "num_le x PosInf = True"
| "num_le (Fin a) (Fin b) = (a \<le> b)"
| "num_le x y = False"

subsection \<open>Arrays\<close>

text \<open>
  \<open>a[i]\<close> on an array never throws: outside the array it is \<open>undefined\<close>, here \<open>None\<close>.
\<close>

definition js_index :: "'a list \<Rightarrow> int \<Rightarrow> 'a option" where
  "js_index xs i = (if 0 \<le> i \<and> nat i < length xs then Some (xs ! nat i) else None)"

text \<open>
  \<open>Array.prototype.slice(start, end)\<close> for integer arguments: a negative position counts
  from the end, and both are clamped to the array.
\<close>

definition slice_pos :: "nat \<Rightarrow> int \<Rightarrow> nat" where
  "slice_pos len i = (if i < 0 then nat (max (int len + i) 0) else min (nat i) len)"

definition js_slice :: "'a list \<Rightarrow> int \<Rightarrow> int \<Rightarrow> 'a list" where
  "js_slice xs start fin =
     (let k = slice_pos (length xs) start; f = slice_pos (length xs) fin
      in take (f - k) (drop k xs))"

text \<open>
  \<open>ToNumber\<close> of an array goes through its string form, the elements joined by commas
  (\<open>null\<close> and \<open>undefined\<close> elements as empty strings): the empty array reads as \<open>0\<close>, a
  one-element array as its element, and any longer array has a comma in its string form,
  which is no numeric literal.
\<close>

fun Array_ToNumber :: "jsval list \<Rightarrow> number" where
  "Array_ToNumber [] = Fin 0"
| "Array_ToNumber [Num n] = n"
| "Array_ToNumber [v] = Fin 0"
| "Array_ToNumber (v # w # vs) = NaN"

text \<open>
  \<open>Math.max\<close> and \<open>Math.min\<close> take their arguments one by one, each through
  \<open>ToNumber\<close>: \<open>NaN\<close> if any argument is \<open>NaN\<close>, else the largest (smallest), starting from
  \<open>-Infinity\<close> (\<open>Infinity\<close>).
\<close>

definition Math_max :: "number list \<Rightarrow> number" where
  "Math_max args =
     (if list_ex isNaN args then NaN
      else foldl (\<lambda>m x. if num_le m x then x else m) NegInf args)"

definition Math_min :: "number list \<Rightarrow> number" where
  "Math_min args =
     (if list_ex isNaN args then NaN
      else foldl (\<lambda>m x. if num_le x m then x else m) PosInf args)"

section \<open>Series and the statistic overlays\<close>

text \<open>
  A series object: \<open>name\<close> (a string, or \<open>undefined\<close> when the header does not exist),
  \<open>data\<close>, and for the overlays \<open>dashStyle\<close> and \<open>marker.enabled\<close>.
\<close>

record chart_series =
  name :: "jsstring option"
  data :: "jsval list"
  dashStyle :: "jsstring option"
  marker :: "bool option"

text \<open>
  \<open>ToString\<close> of a value that is a string or \<open>undefined\<close> (\<open>None\<close>), as in a template
  literal: \<open>undefined\<close> becomes the word.
\<close>

fun ToString :: "jsstring option \<Rightarrow> jsstring" where
  "ToString None = js ''undefined''"
| "ToString (Some s) = s"

text \<open>
  An integer inside a template literal, in decimal (the exponent form that JavaScript
  switches to from \<open>10^21\<close> on is not modelled).
\<close>

fun decimal :: "nat \<Rightarrow> jsstring" where
  "decimal n =
     (if n < 10 then [of_nat (48 + n)]
      else decimal (n div 10) @ [of_nat (48 + n mod 10)])"

definition int_ToString :: "int \<Rightarrow> jsstring" where
  "int_ToString i = (if i < 0 then js ''-'' @ decimal (nat (- i)) else decimal (nat i))"

subsection \<open>\<open>createStatSeries\<close>\<close>

text \<open>
  \<^verbatim>\<open>
  function createStatSeries(originalSeries, statName, statFunction) {
      const statValue = statFunction(originalSeries.data.filter(v => v !== null));
      return { name: `${originalSeries.name} (${statName})`,
               data: originalSeries.data.map(() => statValue),
               dashStyle: 'ShortDash', marker: { enabled: false } };
  }
  \<close>
  \<open>statFunction\<close> is called with one argument, the filtered array.
\<close>

definition createStatSeries ::
  "chart_series \<Rightarrow> jsstring \<Rightarrow> (jsval list \<Rightarrow> number) \<Rightarrow> chart_series" where
  "createStatSeries originalSeries statName statFunction =
     (let statValue = statFunction (filter (\<lambda>v. v \<noteq> Null) (data originalSeries))
      in \<lparr> name = Some (ToString (name originalSeries) @ js '' ('' @ statName @ js '')''),
           data = map (\<lambda>_. Num statValue) (data originalSeries),
           dashStyle = Some (js ''ShortDash''),
           marker = Some False \<rparr>)"

text \<open>
  The three functions \<open>processData\<close> passes. \<open>Math.max\<close> and \<open>Math.min\<close> are passed as
  they are, so the call \<open>statFunction(array)\<close> is \<open>Math.max(array)\<close>: one argument, an
  array, which \<open>Math.max\<close> converts to a number. The average is
  \<^verbatim>\<open>arr => arr.reduce((a, b) => a + b, 0) / arr.length\<close>.
\<close>

definition stat_max :: "jsval list \<Rightarrow> number" where
  "stat_max arr = Math_max [Array_ToNumber arr]"

definition stat_min :: "jsval list \<Rightarrow> number" where
  "stat_min arr = Math_min [Array_ToNumber arr]"

definition stat_avg :: "jsval list \<Rightarrow> number" where
  "stat_avg arr =
     num_div (foldl (\<lambda>a b. num_add a (ToNumber b)) (Fin 0) arr) (Fin (of_nat (length arr)))"

subsection \<open>\<open>createSMA\<close>\<close>

text \<open>
  \<^verbatim>\<open>
  for (let i = 0; i < originalSeries.data.length; i++) {
      if (i < period - 1) { smaData.push(null); }
      else {
          const slice = originalSeries.data.slice(i - period + 1, i + 1);
          const avg = slice.reduce((sum, value) => sum + (value || 0), 0) / period;
          smaData.push(avg);
      }
  }
  \<close>
  The period is an integer: it is \<open>parseInt\<close> of a validated input, or 20. The
  source's \<open>slice\<close> is \<open>window\<close> here.
\<close>

definition or_zero :: "jsval \<Rightarrow> jsval" where
  "or_zero v = (if ToBoolean v then v else Num (Fin 0))"

definition sma_avg :: "jsval list \<Rightarrow> int \<Rightarrow> number" where
  "sma_avg window period =
     num_div (foldl (\<lambda>sum v. num_add sum (ToNumber (or_zero v))) (Fin 0) window)
       (Fin (of_int period))"

function sma_loop :: "jsval list \<Rightarrow> int \<Rightarrow> nat \<Rightarrow> jsval list \<Rightarrow> jsval list" where
  "sma_loop d period i smaData =
     (if i < length d then
        (if int i < period - 1 then sma_loop d period (i + 1) (smaData @ [Null])
         else
           (let window = js_slice d (int i - period + 1) (int i + 1);
                avg = sma_avg window period
            in sma_loop d period (i + 1) (smaData @ [Num avg])))
      else smaData)"
  by pat_completeness auto
termination
  by (relation "measure (\<lambda>(d, period, i, smaData). length d - i)") auto

declare sma_loop.simps [simp del]

definition createSMA :: "chart_series \<Rightarrow> int \<Rightarrow> chart_series" where
  "createSMA originalSeries period =
     \<lparr> name = Some (ToString (name originalSeries) @ js '' (SMA '' @ int_ToString period @ js '')''),
       data = sma_loop (data originalSeries) period 0 [],
       dashStyle = Some (js ''ShortDash''),
       marker = Some False \<rparr>"

subsection \<open>\<open>createEMA\<close>\<close>

text \<open>
  \<^verbatim>\<open>
  const k = 2 / (period + 1);
  let ema = originalSeries.data[0];
  const emaData = [ema];
  for (let i = 1; i < originalSeries.data.length; i++) {
      const value = originalSeries.data[i];
      if (value !== null) { ema = value * k + ema * (1 - k); }
      emaData.push(ema);
  }
  \<close>
  \<open>data[0]\<close> of an empty array is \<open>undefined\<close>; \<open>*\<close> converts both operands with
  \<open>ToNumber\<close>.
\<close>

definition data_at :: "jsval list \<Rightarrow> int \<Rightarrow> jsval" where
  "data_at d i = (case js_index d i of None \<Rightarrow> Undefined | Some v \<Rightarrow> v)"

definition ema_k :: "int \<Rightarrow> number" where
  "ema_k period = num_div (Fin 2) (Fin (of_int (period + 1)))"

definition ema_step :: "number \<Rightarrow> jsval \<Rightarrow> jsval \<Rightarrow> jsval" where
  "ema_step k ema v =
     (if v \<noteq> Null
      then Num (num_add (num_mul (ToNumber v) k) (num_mul (ToNumber ema) (num_sub (Fin 1) k)))
      else ema)"

function ema_loop :: "jsval list \<Rightarrow> number \<Rightarrow> nat \<Rightarrow> jsval \<Rightarrow> jsval list \<Rightarrow> jsval list" where
  "ema_loop d k i ema emaData =
     (if i < length d then
        (let v = data_at d (int i);
             ema' = ema_step k ema v
         in ema_loop d k (i + 1) ema' (emaData @ [ema']))
      else emaData)"
  by pat_completeness auto
termination
  by (relation "measure (\<lambda>(d, k, i, ema, emaData). length d - i)") auto

declare ema_loop.simps [simp del]

definition createEMA :: "chart_series \<Rightarrow> int \<Rightarrow> chart_series" where
  "createEMA originalSeries period =
     (let k = ema_k period;
          ema = data_at (data originalSeries) 0
      in \<lparr> name = Some (ToString (name originalSeries) @ js '' (EMA '' @ int_ToString period @ js '')''),
           data = ema_loop (data originalSeries) k 1 ema [ema],
           dashStyle = Some (js ''ShortDot''),
           marker = Some False \<rparr>)"

section \<open>Strings\<close>

text \<open>
  The code units that \<open>trim\<close> and \<open>parseFloat\<close> skip: the language's white space (tab,
  vertical tab, form feed, the byte order mark and the space separators of Unicode)
  and its line terminators.
\<close>

definition is_white_space :: "code_unit \<Rightarrow> bool" where
  "is_white_space c \<longleftrightarrow>
     c \<in> set [0x09, 0x0A, 0x0B, 0x0C, 0x0D, 0x20, 0xA0, 0x1680,
                0x2000, 0x2001, 0x2002, 0x2003, 0x2004, 0x2005, 0x2006, 0x2007, 0x2008,
                0x2009, 0x200A, 0x2028, 0x2029, 0x202F, 0x205F, 0x3000, 0xFEFF]"

definition trimStart :: "jsstring \<Rightarrow> jsstring" where
  "trimStart s = dropWhile is_white_space s"

definition trim :: "jsstring \<Rightarrow> jsstring" where
  "trim s = rev (dropWhile is_white_space (rev (dropWhile is_white_space s)))"

text \<open>\<open>s.includes(t)\<close>: \<open>t\<close> occurs somewhere in \<open>s\<close>.\<close>

fun str_includes :: "jsstring \<Rightarrow> jsstring \<Rightarrow> bool" where
  "str_includes [] t = (t = [])"
| "str_includes (c # s) t = (take (length t) (c # s) = t \<or> str_includes s t)"

text \<open>
  \<open>s.split(sep)\<close> for a separator of one code unit, which is what every call in the
  source passes: the pieces between the separators, empty pieces kept, so the empty
  string splits into one empty piece. A code unit that is not the separator joins the
  first piece of the rest (there always is one: the \<open>[]\<close> case is never taken).
\<close>

fun split :: "jsstring \<Rightarrow> code_unit \<Rightarrow> jsstring list" where
  "split [] sep = [[]]"
| "split (c # s) sep =
     (if c = sep then [] # split s sep
      else (case split s sep of
              [] \<Rightarrow> [[c]]
            | f # fs \<Rightarrow> (c # f) # fs))"

text \<open>\<open>xs.indexOf(x)\<close>: the first position of \<open>x\<close>, or \<open>-1\<close>.\<close>

fun indexOf_from :: "'a list \<Rightarrow> 'a \<Rightarrow> int \<Rightarrow> int" where
  "indexOf_from [] x i = - 1"
| "indexOf_from (y # ys) x i = (if y = x then i else indexOf_from ys x (i + 1))"

definition indexOf :: "'a list \<Rightarrow> 'a \<Rightarrow> int" where
  "indexOf xs x = indexOf_from xs x 0"

subsection \<open>\<open>parseFloat\<close>\<close>

text \<open>
  \<open>parseFloat\<close> skips leading white space and reads the longest prefix that is a decimal
  literal of the language: an optional sign, then \<open>Infinity\<close>, or digits with an
  optional fraction, or a fraction alone, each with an optional exponent (an exponent
  with no digit is not part of the literal). With no such prefix the result is \<open>NaN\<close>.
  What follows the prefix is ignored. The value is the exact decimal value.
\<close>

definition is_digit :: "code_unit \<Rightarrow> bool" where
  "is_digit c \<longleftrightarrow> 0x30 \<le> c \<and> c \<le> 0x39"

definition digits_value :: "jsstring \<Rightarrow> nat" where
  "digits_value ds = foldl (\<lambda>n c. 10 * n + (unat c - 48)) 0 ds"

definition scale10 :: "rat \<Rightarrow> int \<Rightarrow> rat" where
  "scale10 m e = (if 0 \<le> e then m * 10 ^ nat e else m / 10 ^ nat (- e))"

text \<open>The exponent at the head of a string and the rest; no exponent is \<open>0\<close>.\<close>

definition exponent_part :: "jsstring \<Rightarrow> int \<times> jsstring" where
  "exponent_part s =
     (case s of
        [] \<Rightarrow> (0, s)
      | c # r \<Rightarrow>
          if c = 0x65 \<or> c = 0x45 then
            (let neg = (r \<noteq> [] \<and> hd r = 0x2D);
                 r' = (if r \<noteq> [] \<and> (hd r = 0x2B \<or> hd r = 0x2D) then tl r else r);
                 ds = takeWhile is_digit r'
             in if ds = [] then (0, s)
                else ((if neg then - int (digits_value ds) else int (digits_value ds)),
                      dropWhile is_digit r'))
          else (0, s))"

definition unsigned_literal :: "jsstring \<Rightarrow> (number \<times> jsstring) option" where
  "unsigned_literal s =
     (if take 8 s = js ''Infinity'' then Some (PosInf, drop 8 s)
      else
        (let ip = takeWhile is_digit s;
             r1 = dropWhile is_digit s;
             has_dot = (r1 \<noteq> [] \<and> hd r1 = 0x2E);
             fp = (if has_dot then takeWhile is_digit (tl r1) else []);
             r2 = (if has_dot then dropWhile is_digit (tl r1) else r1)
         in if ip = [] \<and> fp = [] then None
            else
              (let (e, r3) = exponent_part r2
               in Some (Fin (scale10 (of_nat (digits_value (ip @ fp))) (e - int (length fp))),
                        r3))))"

definition decimal_literal :: "jsstring \<Rightarrow> (number \<times> jsstring) option" where
  "decimal_literal s =
     (if s \<noteq> [] \<and> hd s = 0x2B then unsigned_literal (tl s)
      else if s \<noteq> [] \<and> hd s = 0x2D then
        (case unsigned_literal (tl s) of
           None \<Rightarrow> None
         | Some (v, r) \<Rightarrow> Some (num_neg v, r))
      else unsigned_literal s)"

text \<open>
  The argument is a string or \<open>undefined\<close> (a field read past the end of a row), which
  \<open>parseFloat\<close> first turns into the string \<open>undefined\<close>.
\<close>

definition parseFloat :: "jsstring option \<Rightarrow> number" where
  "parseFloat arg =
     (case decimal_literal (trimStart (ToString arg)) of
        None \<Rightarrow> NaN
      | Some (v, r) \<Rightarrow> v)"

section \<open>The parser\<close>

text \<open>
  \<^verbatim>\<open>
  function parseFile(content) {
      const lines = content.split('\n').filter(line => line.trim() !== '');
      if (lines.length === 0) return { headers: [], data: [] };
      const firstLine = lines[0];
      let separator;
      if (firstLine.includes('\t')) separator = '\t';
      else if (firstLine.includes(';')) separator = ';';
      else if (firstLine.includes('|')) separator = '|';
      else { vscode.window.showWarningMessage('No valid separator detected. Defaulting to tab.');
             separator = '\t'; }
      const headers = lines[0].split(separator).map(header => header.trim());
      const data = lines.slice(1).map(line => line.split(separator));
      return { headers, data };
  }
  \<close>
  The result carries the table (the source's \<open>data\<close> is \<open>rows\<close> here) and the warning
  messages shown on the way.
\<close>

record parsed =
  headers :: "jsstring list"
  rows :: "jsstring list list"

definition detect_separator :: "jsstring \<Rightarrow> code_unit \<times> jsstring list" where
  "detect_separator firstLine =
     (if str_includes firstLine [0x09] then (0x09, [])
      else if str_includes firstLine [0x3B] then (0x3B, [])
      else if str_includes firstLine [0x7C] then (0x7C, [])
      else (0x09, [js ''No valid separator detected. Defaulting to tab.'']))"

definition parseFile :: "jsstring \<Rightarrow> parsed \<times> jsstring list" where
  "parseFile content =
     (let lines = filter (\<lambda>line. trim line \<noteq> []) (split content 0x0A)
      in if length lines = 0 then (\<lparr> headers = [], rows = [] \<rparr>, [])
         else
           (let firstLine = lines ! 0;
                (separator, warnings) = detect_separator firstLine
            in (\<lparr> headers = map trim (split (lines ! 0) separator),
                   rows = map (\<lambda>line. split line separator)
                            (js_slice lines 1 (int (length lines))) \<rparr>,
                warnings)))"

section \<open>The column selector\<close>

text \<open>
  \<^verbatim>\<open>
  async function selectColumns(headers, fileName) {
      const lastUsed = lastUsedColumns.get(fileName);
      const options = headers.map((header, index) => ({
          label: header,
          picked: lastUsed ? lastUsed.includes(index) : index > 0 }));
      const selectedItems = await vscode.window.showQuickPick(options, { canPickMany: true, ... });
      if (selectedItems && selectedItems.length > 0) {
          const selectedIndexes = selectedItems.map(item => headers.indexOf(item.label));
          lastUsedColumns.set(fileName, selectedIndexes);
          return [0, ...selectedIndexes];
      } else if (lastUsed) {
          return [0, ...lastUsed];
      }
      return null;
  }
  \<close>
  \<open>lastUsedColumns\<close> is the store, passed in and returned. The user's answer to the pick
  is an argument: \<open>None\<close> when the pick is cancelled, else the items the user confirmed,
  which are items of \<open>options\<close>.
\<close>

record quick_pick_item =
  label :: jsstring
  picked :: bool

definition options :: "jsstring list \<Rightarrow> int list option \<Rightarrow> quick_pick_item list" where
  "options hs lastUsed =
     map (\<lambda>(header, index).
            \<lparr> label = header,
              picked = (case lastUsed of
                          Some l \<Rightarrow> index \<in> set l
                        | None \<Rightarrow> index > 0) \<rparr>)
         (zip hs (map int [0..<length hs]))"

definition selectColumns ::
  "(jsstring \<rightharpoonup> int list) \<Rightarrow> jsstring list \<Rightarrow> jsstring \<Rightarrow> quick_pick_item list option
   \<Rightarrow> int list option \<times> (jsstring \<rightharpoonup> int list)" where
  "selectColumns lastUsedColumns hs fileName selectedItems =
     (let lastUsed = lastUsedColumns fileName
      in if selectedItems \<noteq> None \<and> length (the selectedItems) > 0 then
           (let selectedIndexes = map (\<lambda>item. indexOf hs (label item)) (the selectedItems)
            in (Some (0 # selectedIndexes), lastUsedColumns(fileName \<mapsto> selectedIndexes)))
         else if lastUsed \<noteq> None then (Some (0 # the lastUsed), lastUsedColumns)
         else (None, lastUsedColumns))"

section \<open>\<open>processData\<close>\<close>

text \<open>
  \<^verbatim>\<open>
  function processData(headers, data, selectedColumns, statistics, periods) {
      const categories = data.map(row => row[0]);
      const series = selectedColumns.slice(1).map(colIndex => ({
          name: headers[colIndex],
          data: data.map(row => {
              const value = parseFloat(row[colIndex]);
              return isNaN(value) ? null : value;
          })
      }));
      series.forEach(s => {
          statistics.forEach(stat => {
              switch (stat) {
                  case 'Max': series.push(createStatSeries(s, 'Max', Math.max)); break;
                  case 'Min': series.push(createStatSeries(s, 'Min', Math.min)); break;
                  case 'Average': series.push(createStatSeries(s, 'Avg', arr => ...)); break;
                  case 'SMA': series.push(createSMA(s, periods.sma)); break;
                  case 'EMA': series.push(createEMA(s, periods.ema)); break;
              }
          });
      });
      return { series, categories };
  }
  \<close>
  \<open>periods.sma\<close> and \<open>periods.ema\<close> are read only under their own case, and
  \<open>getMovingAveragePeriods\<close> sets each whenever its statistic is requested, to an
  integer.
\<close>

record periods =
  sma :: int
  ema :: int

record processed =
  series :: "chart_series list"
  categories :: "jsstring option list"

definition cell :: "jsstring list \<Rightarrow> int \<Rightarrow> jsval" where
  "cell row colIndex =
     (let v = parseFloat (js_index row colIndex)
      in if isNaN v then Null else Num v)"

definition base_series ::
  "jsstring list \<Rightarrow> jsstring list list \<Rightarrow> int list \<Rightarrow> chart_series list" where
  "base_series hs d selectedColumns =
     map (\<lambda>colIndex.
            \<lparr> name = js_index hs colIndex,
              data = map (\<lambda>row. cell row colIndex) d,
              dashStyle = None,
              marker = None \<rparr>)
         (js_slice selectedColumns 1 (int (length selectedColumns)))"

text \<open>The \<open>switch\<close>: one push for a known statistic, nothing for any other string.\<close>

definition push_stat ::
  "chart_series \<Rightarrow> periods \<Rightarrow> chart_series list \<Rightarrow> jsstring \<Rightarrow> chart_series list" where
  "push_stat s ps ser stat =
     (if stat = js ''Max'' then ser @ [createStatSeries s (js ''Max'') stat_max]
      else if stat = js ''Min'' then ser @ [createStatSeries s (js ''Min'') stat_min]
      else if stat = js ''Average'' then ser @ [createStatSeries s (js ''Avg'') stat_avg]
      else if stat = js ''SMA'' then ser @ [createSMA s (sma ps)]
      else if stat = js ''EMA'' then ser @ [createEMA s (ema ps)]
      else ser)"

text \<open>
  \<open>series.forEach\<close> reads the length of the array once, before the first call, and then
  visits the positions below it, each read from the array as it is at that moment
  (a position that is not in the array is skipped). The callback pushes onto the same
  array. The inner \<open>statistics.forEach\<close> runs over an array nobody changes.
\<close>

function series_forEach ::
  "jsstring list \<Rightarrow> periods \<Rightarrow> nat \<Rightarrow> nat \<Rightarrow> chart_series list \<Rightarrow> chart_series list" where
  "series_forEach statistics ps len k ser =
     (if k < len then
        (if k < length ser
         then series_forEach statistics ps len (k + 1)
                (foldl (push_stat (ser ! k) ps) ser statistics)
         else series_forEach statistics ps len (k + 1) ser)
      else ser)"
  by pat_completeness auto
termination
  by (relation "measure (\<lambda>(statistics, ps, len, k, ser). len - k)") auto

declare series_forEach.simps [simp del]

definition processData ::
  "jsstring list \<Rightarrow> jsstring list list \<Rightarrow> int list \<Rightarrow> jsstring list \<Rightarrow> periods \<Rightarrow> processed" where
  "processData hs d selectedColumns statistics ps =
     (let cats = map (\<lambda>row. js_index row 0) d;
          ser = base_series hs d selectedColumns
      in \<lparr> series = series_forEach statistics ps (length ser) 0 ser,
           categories = cats \<rparr>)"

section \<open>Notions used in the statements\<close>

subsection \<open>Closed forms of the loops\<close>

text \<open>The value \<open>createSMA\<close> pushes at index \<open>i\<close>.\<close>

definition sma_point :: "jsval list \<Rightarrow> int \<Rightarrow> nat \<Rightarrow> jsval" where
  "sma_point d period i =
     (if int i < period - 1 then Null
      else Num (sma_avg (js_slice d (int i - period + 1) (int i + 1)) period))"

text \<open>
  The values \<open>createEMA\<close> pushes while it runs over the values \<open>vs\<close>, its variable
  \<open>ema\<close> being \<open>e\<close> before.
\<close>

fun ema_scan :: "number \<Rightarrow> jsval \<Rightarrow> jsval list \<Rightarrow> jsval list" where
  "ema_scan k e [] = []"
| "ema_scan k e (v # vs) = ema_step k e v # ema_scan k (ema_step k e v) vs"

text \<open>The series the inner loop pushes for one series \<open>s\<close>, in the order of the request.\<close>

definition overlays :: "chart_series \<Rightarrow> periods \<Rightarrow> jsstring list \<Rightarrow> chart_series list" where
  "overlays s ps statistics = foldl (push_stat s ps) [] statistics"

subsection \<open>Values of a series\<close>

text \<open>
  A value of a base series is absent (\<open>null\<close>) or a number. It is finite when it is
  absent or a finite number; an absent value counts as \<open>0\<close> in a moving sum.
\<close>

fun finite_or_absent :: "jsval \<Rightarrow> bool" where
  "finite_or_absent Null = True"
| "finite_or_absent (Num (Fin r)) = True"
| "finite_or_absent v = False"

fun value_or_zero :: "jsval \<Rightarrow> rat" where
  "value_or_zero (Num (Fin r)) = r"
| "value_or_zero v = 0"

subsection \<open>The parser as the specification words it\<close>

definition whitespace_only :: "jsstring \<Rightarrow> bool" where
  "whitespace_only l = list_all is_white_space l"

text \<open>
  Drop the lines that are empty or white space only; with no line left the table is
  empty; else the delimiter comes from the first line left (tab, else \<open>;\<close>, else \<open>|\<close>,
  else tab with a warning), the headers are its fields trimmed, and the rows are the
  fields of the other lines as they are. The flag says whether a warning is raised.
\<close>

definition parse_spec :: "jsstring \<Rightarrow> parsed \<times> bool" where
  "parse_spec content =
     (case filter (\<lambda>l. \<not> whitespace_only l) (split content 0x0A) of
        [] \<Rightarrow> (\<lparr> headers = [], rows = [] \<rparr>, False)
      | first # rest \<Rightarrow>
          (let delimiter =
                 (if 0x09 \<in> set first then 0x09
                  else if 0x3B \<in> set first then 0x3B
                  else if 0x7C \<in> set first then 0x7C
                  else 0x09);
               warning = (0x09 \<notin> set first \<and> 0x3B \<notin> set first \<and> 0x7C \<notin> set first)
           in (\<lparr> headers = map trim (split first delimiter),
                  rows = map (\<lambda>l. split l delimiter) rest \<rparr>,
               warning)))"

subsection \<open>A valid number\<close>

text \<open>
  A field is a valid number when, white space around it apart, the whole of it is one
  decimal literal.
\<close>

definition valid_number :: "jsstring \<Rightarrow> bool" where
  "valid_number fld =
     (case decimal_literal (trim fld) of
        None \<Rightarrow> False
      | Some (v, r) \<Rightarrow> r = [])"

subsection \<open>The grouped order\<close>

text \<open>Each base series followed at once by its own overlays.\<close>

definition grouped_order ::
  "chart_series list \<Rightarrow> periods \<Rightarrow> jsstring list \<Rightarrow> chart_series list" where
  "grouped_order bases ps statistics =
     concat (map (\<lambda>b. b # overlays b ps statistics) bases)"

text \<open>The five statistics the user can request.\<close>

definition known_statistics :: "jsstring list" where
  "known_statistics = [js ''Max'', js ''Min'', js ''Average'', js ''SMA'', js ''EMA'']"

section \<open>The loops in closed form\<close>

lemma num_add_zero_right: "num_add x (Fin 0) = x"
  by (cases x) simp_all

lemma sma_loop_eq:
  "sma_loop d p i acc = acc @ map (sma_point d p) [i..<length d]"
proof (induction d p i acc rule: sma_loop.induct)
  case (1 d period i smaData)
  show ?case
  proof (cases "i < length d")
    case False
    then show ?thesis by (subst sma_loop.simps) simp
  next
    case True
    note lt = this
    have upt: "[i..<length d] = i # [Suc i..<length d]"
      using lt by (simp add: upt_conv_Cons)
    show ?thesis
    proof (cases "int i < period - 1")
      case True
      then show ?thesis
        using lt "1.IH"(1) upt by (subst sma_loop.simps) (simp add: sma_point_def)
    next
      case False
      then show ?thesis
        using lt "1.IH"(2)[OF lt False refl refl] upt
        by (subst sma_loop.simps) (simp add: sma_point_def Let_def)
    qed
  qed
qed

lemma ema_loop_eq:
  "ema_loop d k i e acc = acc @ ema_scan k e (drop i d)"
proof (induction d k i e acc rule: ema_loop.induct)
  case (1 d k i e emaData)
  show ?case
  proof (cases "i < length d")
    case False
    then show ?thesis by (subst ema_loop.simps) simp
  next
    case True
    have dr: "drop i d = d ! i # drop (Suc i) d"
      using True by (simp add: Cons_nth_drop_Suc)
    have at: "data_at d (int i) = d ! i"
      using True by (simp add: data_at_def js_index_def)
    show ?thesis
      using True "1.IH"[OF True refl refl] dr at
      by (subst ema_loop.simps) (simp add: Let_def)
  qed
qed

lemma push_stat_append: "push_stat s ps ser stat = ser @ push_stat s ps [] stat"
  by (simp add: push_stat_def)

lemma foldl_push_stat:
  "foldl (push_stat s ps) ser statistics = ser @ overlays s ps statistics"
proof (induction statistics arbitrary: ser)
  case Nil
  show ?case by (simp add: overlays_def)
next
  case (Cons x xs)
  have a: "foldl (push_stat s ps) (push_stat s ps ser x) xs =
             push_stat s ps ser x @ overlays s ps xs"
    by (rule Cons.IH)
  have b: "foldl (push_stat s ps) (push_stat s ps [] x) xs =
             push_stat s ps [] x @ overlays s ps xs"
    by (rule Cons.IH)
  have c: "push_stat s ps ser x = ser @ push_stat s ps [] x"
    by (rule push_stat_append)
  have "foldl (push_stat s ps) ser (x # xs) = (ser @ push_stat s ps [] x) @ overlays s ps xs"
    using a c by simp
  moreover have "overlays s ps (x # xs) = push_stat s ps [] x @ overlays s ps xs"
    using b by (simp add: overlays_def)
  ultimately show ?case by simp
qed

lemma series_forEach_eq:
  "k \<le> len \<Longrightarrow> len \<le> length ser \<Longrightarrow>
   series_forEach statistics ps len k ser =
     ser @ concat (map (\<lambda>s. overlays s ps statistics) (drop k (take len ser)))"
proof (induction statistics ps len k ser rule: series_forEach.induct)
  case (1 statistics ps len k ser)
  show ?case
  proof (cases "k < len")
    case False
    then show ?thesis using "1.prems" by (subst series_forEach.simps) simp
  next
    case True
    then have kl: "k < length ser" using "1.prems" by simp
    let ?ser' = "foldl (push_stat (ser ! k) ps) ser statistics"
    have ser': "?ser' = ser @ overlays (ser ! k) ps statistics"
      by (rule foldl_push_stat)
    have tk: "take len ?ser' = take len ser"
      using "1.prems" by (simp add: ser')
    have dr: "drop k (take len ser) = ser ! k # drop (Suc k) (take len ser)"
      using True kl by (simp add: Cons_nth_drop_Suc[symmetric])
    have len': "len \<le> length ?ser'"
      using "1.prems" by (simp add: ser')
    have step: "series_forEach statistics ps len k ser =
                  series_forEach statistics ps len (k + 1) ?ser'"
      using True kl by (subst series_forEach.simps) simp
    have "series_forEach statistics ps len (k + 1) ?ser' =
            ?ser' @ concat (map (\<lambda>s. overlays s ps statistics) (drop (k + 1) (take len ?ser')))"
      using True len' by (intro "1.IH"(1)[OF True kl]) simp_all
    also have "\<dots> = ser @ overlays (ser ! k) ps statistics @
                 concat (map (\<lambda>s. overlays s ps statistics) (drop (Suc k) (take len ser)))"
      unfolding tk by (simp add: ser')
    also have "\<dots> = ser @ concat (map (\<lambda>s. overlays s ps statistics) (drop k (take len ser)))"
      unfolding dr by simp
    finally show ?thesis using step by simp
  qed
qed

text \<open>\<open>slice(1)\<close> drops the first element.\<close>

lemma slice_from_1: "js_slice xs 1 (int (length xs)) = drop 1 xs"
  by (cases xs) (simp_all add: js_slice_def slice_pos_def)

lemma length_base_series: "length (base_series hs d sel) = length sel - 1"
  by (simp add: base_series_def slice_from_1)

section \<open>Properties of the parser\<close>

text \<open>
  A line is dropped exactly when it is empty or white space only; a one-unit search is
  membership; the pieces of a split are never none and never hold the separator.
\<close>

lemma dropWhile_white_space_Nil:
  "dropWhile is_white_space l = [] \<longleftrightarrow> whitespace_only l"
  unfolding whitespace_only_def list_all_iff by (rule dropWhile_eq_Nil_conv)

lemma trim_empty_iff: "trim l = [] \<longleftrightarrow> whitespace_only l"
proof
  assume "trim l = []"
  then have "dropWhile is_white_space (rev (dropWhile is_white_space l)) = []"
    by (simp add: trim_def)
  then have all: "\<forall>x\<in>set (dropWhile is_white_space l). is_white_space x"
    by (simp add: dropWhile_eq_Nil_conv)
  have "dropWhile is_white_space l = []"
  proof (rule ccontr)
    assume ne: "dropWhile is_white_space l \<noteq> []"
    then have "\<not> is_white_space (hd (dropWhile is_white_space l))"
      by (rule hd_dropWhile)
    moreover have "hd (dropWhile is_white_space l) \<in> set (dropWhile is_white_space l)"
      using ne by simp
    ultimately show False using all by blast
  qed
  then show "whitespace_only l"
    by (rule dropWhile_white_space_Nil[THEN iffD1])
next
  assume "whitespace_only l"
  then have "dropWhile is_white_space l = []"
    by (rule dropWhile_white_space_Nil[THEN iffD2])
  then show "trim l = []" by (simp only: trim_def rev.simps dropWhile.simps)
qed

lemma str_includes_unit: "str_includes s [c] \<longleftrightarrow> c \<in> set s"
  by (induction s) auto

lemma split_not_empty: "split s sep \<noteq> []"
  by (induction s) (simp_all split: list.splits)

lemma split_fields_free: "f \<in> set (split s sep) \<Longrightarrow> sep \<notin> set f"
proof (induction s arbitrary: f)
  case Nil
  then show ?case by simp
next
  case (Cons c s)
  show ?case
  proof (cases "c = sep")
    case True
    then show ?thesis using Cons by auto
  next
    case False
    obtain g gs where r: "split s sep = g # gs"
      using split_not_empty[of s sep] by (cases "split s sep") auto
    then have "f = c # g \<or> f \<in> set gs" using Cons.prems False by simp
    then show ?thesis using Cons.IH[of g] Cons.IH[of f] r False by auto
  qed
qed

lemma detect_separator_spec:
  "detect_separator l =
     ((if 0x09 \<in> set l then 0x09
       else if 0x3B \<in> set l then 0x3B
       else if 0x7C \<in> set l then 0x7C
       else 0x09),
      (if 0x09 \<notin> set l \<and> 0x3B \<notin> set l \<and> 0x7C \<notin> set l
       then [js ''No valid separator detected. Defaulting to tab.''] else []))"
  by (simp add: detect_separator_def str_includes_unit)

text \<open>
  C6 (the parser). The parser drops the lines that are empty or white space only; with
  no line left it returns empty headers and rows; else it takes the delimiter from the
  first line left (tab, else \<open>;\<close>, else \<open>|\<close>, else tab with a warning), the headers are
  the fields of that line, trimmed, and the rows are the fields of the other lines, not
  trimmed. \<open>parse_spec\<close> is this description; the code computes the same table and shows
  its warning exactly when the description raises one.
\<close>

theorem parser_as_specified:
  "parseFile content =
     (fst (parse_spec content),
      if snd (parse_spec content)
      then [js ''No valid separator detected. Defaulting to tab.''] else [])"
proof -
  let ?kept = "filter (\<lambda>l. \<not> whitespace_only l) (split content 0x0A)"
  have lines: "filter (\<lambda>line. trim line \<noteq> []) (split content 0x0A) = ?kept"
    by (simp add: trim_empty_iff)
  show ?thesis
  proof (cases ?kept)
    case Nil
    then show ?thesis
      by (simp add: parseFile_def parse_spec_def lines)
  next
    case (Cons first rest)
    show ?thesis
      unfolding parseFile_def parse_spec_def Let_def lines Cons slice_from_1
      by (simp add: detect_separator_spec)
  qed
qed

text \<open>
  A file with a blank line between header and data, with \<open>;\<close> as delimiter: the header
  fields are trimmed and the data fields are not. A file with no delimiter: one column
  and the warning. A file of blank lines: the empty table.
\<close>

theorem parser_as_specified_witness:
  "parseFile (js ''a; b ;c'' @ [0x0A] @ js ''  '' @ [0x0A] @ js ''1; 2;3'' @ [0x0A])
     = (\<lparr> headers = [js ''a'', js ''b'', js ''c''],
          rows = [[js ''1'', js '' 2'', js ''3'']] \<rparr>, [])
   \<and> parseFile (js ''abc'')
     = (\<lparr> headers = [js ''abc''], rows = [] \<rparr>,
        [js ''No valid separator detected. Defaulting to tab.''])
   \<and> parseFile (js '' '' @ [0x0A, 0x09, 0x0A])
     = (\<lparr> headers = [], rows = [] \<rparr>, [])"
proof -
  have a: "parse_spec (js ''a; b ;c'' @ [0x0A] @ js ''  '' @ [0x0A] @ js ''1; 2;3'' @ [0x0A])
     = (\<lparr> headers = [js ''a'', js ''b'', js ''c''],
          rows = [[js ''1'', js '' 2'', js ''3'']] \<rparr>, False)"
    by code_simp
  have b: "parse_spec (js ''abc'') = (\<lparr> headers = [js ''abc''], rows = [] \<rparr>, True)"
    by code_simp
  have c: "parse_spec (js '' '' @ [0x0A, 0x09, 0x0A]) = (\<lparr> headers = [], rows = [] \<rparr>, False)"
    by code_simp
  show ?thesis
    unfolding parser_as_specified a b c by simp
qed

section \<open>Properties of the column selector\<close>

text \<open>
  C8 (fallback of the selector). When the user cancels the pick or confirms an empty
  pick, the selector returns \<open>[0]\<close> followed by the stored prior selection of the
  document if there is one, and no selection otherwise; the store is left as it was in
  both cases.
\<close>

theorem selector_fallback:
  "selectedItems = None \<or> selectedItems = Some [] \<Longrightarrow>
   selectColumns lastUsedColumns hs fileName selectedItems =
     ((case lastUsedColumns fileName of None \<Rightarrow> None | Some prior \<Rightarrow> Some (0 # prior)),
      lastUsedColumns)"
  by (auto simp: selectColumns_def split: option.splits)

text \<open>
  With the prior selection \<open>{2,4}\<close> stored for the document a cancelled pick gives
  \<open>[0,2,4]\<close>; with nothing stored an empty pick gives no selection.
\<close>

theorem selector_fallback_witness:
  "selectColumns [js ''doc'' \<mapsto> [2, 4]] [js ''a'', js ''b'', js ''c'', js ''d'', js ''e'']
       (js ''doc'') None
     = (Some [0, 2, 4], [js ''doc'' \<mapsto> [2, 4]])
   \<and> selectColumns Map.empty [js ''a'', js ''b''] (js ''doc'') (Some [])
     = (None, Map.empty)"
  using selector_fallback[of None "[js ''doc'' \<mapsto> [2, 4]]"
          "[js ''a'', js ''b'', js ''c'', js ''d'', js ''e'']" "js ''doc''"]
        selector_fallback[of "Some []" Map.empty "[js ''a'', js ''b'']" "js ''doc''"]
  by simp

subsection \<open>What a selection holds\<close>

lemma indexOf_from_found:
  "x \<in> set ys \<Longrightarrow>
   i \<le> indexOf_from ys x i \<and> nat (indexOf_from ys x i - i) < length ys
   \<and> ys ! nat (indexOf_from ys x i - i) = x"
proof (induction ys arbitrary: i)
  case Nil
  then show ?case by simp
next
  case (Cons y ys)
  show ?case
  proof (cases "y = x")
    case True
    then show ?thesis by simp
  next
    case False
    then have "x \<in> set ys" using Cons.prems by simp
    from Cons.IH[OF this, of "i + 1"]
    have a: "i + 1 \<le> indexOf_from ys x (i + 1)"
      and b: "nat (indexOf_from ys x (i + 1) - (i + 1)) < length ys"
      and c: "ys ! nat (indexOf_from ys x (i + 1) - (i + 1)) = x"
      by auto
    have n: "nat (indexOf_from ys x (i + 1) - i) = Suc (nat (indexOf_from ys x (i + 1) - (i + 1)))"
      using a by simp
    show ?thesis using False a b c by (simp add: n)
  qed
qed

lemma indexOf_found:
  "x \<in> set xs \<Longrightarrow>
   0 \<le> indexOf xs x \<and> nat (indexOf xs x) < length xs \<and> xs ! nat (indexOf xs x) = x"
  using indexOf_from_found[of x xs 0] by (simp add: indexOf_def)

lemma indexOf_inj:
  assumes "x \<in> set xs" "y \<in> set xs" "indexOf xs x = indexOf xs y"
  shows "x = y"
proof -
  have a: "xs ! nat (indexOf xs x) = x" using indexOf_found[OF assms(1)] by blast
  have b: "xs ! nat (indexOf xs y) = y" using indexOf_found[OF assms(2)] by blast
  have "x = xs ! nat (indexOf xs x)" by (rule a[symmetric])
  also have "\<dots> = xs ! nat (indexOf xs y)" by (simp only: assms(3))
  also have "\<dots> = y" by (rule b)
  finally show ?thesis .
qed

lemma indexOf_zero:
  assumes "x \<in> set xs"
  shows "indexOf xs x = 0 \<longleftrightarrow> hd xs = x"
proof (cases xs)
  case Nil
  then show ?thesis using assms by simp
next
  case (Cons y ys)
  show ?thesis
  proof (cases "y = x")
    case True
    then show ?thesis by (simp add: Cons indexOf_def)
  next
    case False
    then have "x \<in> set ys" using assms Cons by simp
    then have "1 \<le> indexOf_from ys x 1"
      using indexOf_from_found[of x ys 1] by simp
    then show ?thesis using False by (simp add: Cons indexOf_def)
  qed
qed

lemma options_label: "item \<in> set (options hs lastUsed) \<Longrightarrow> label item \<in> set hs"
  by (auto simp: options_def dest: set_zip_leftD)

lemma indexes_distinct:
  assumes "set ls \<subseteq> set hs"
  shows "distinct (0 # map (indexOf hs) ls) \<longleftrightarrow> distinct ls \<and> hd hs \<notin> set ls"
proof -
  have inj: "inj_on (indexOf hs) (set ls)"
  proof (rule inj_onI)
    fix a b
    assume "a \<in> set ls" "b \<in> set ls" and "indexOf hs a = indexOf hs b"
    then show "a = b" using assms indexOf_inj[of a hs b] by blast
  qed
  have d: "distinct (map (indexOf hs) ls) \<longleftrightarrow> distinct ls"
    using inj distinct_map[of "indexOf hs" ls] by blast
  have z: "0 \<in> set (map (indexOf hs) ls) \<longleftrightarrow> hd hs \<in> set ls"
  proof
    assume "0 \<in> set (map (indexOf hs) ls)"
    then have "0 \<in> indexOf hs ` set ls" by simp
    then obtain l where l: "l \<in> set ls" "indexOf hs l = 0" by (auto simp: image_iff)
    have "l \<in> set hs" using l(1) assms by blast
    then have "hd hs = l" using indexOf_zero[of l hs] l(2) by simp
    then show "hd hs \<in> set ls" using l(1) by simp
  next
    assume h: "hd hs \<in> set ls"
    then have "hd hs \<in> set hs" using assms by blast
    then have "indexOf hs (hd hs) = 0" using indexOf_zero[of "hd hs" hs] by simp
    then have "0 \<in> indexOf hs ` set ls" using h by (metis imageI)
    then show "0 \<in> set (map (indexOf hs) ls)" by simp
  qed
  have "distinct (0 # map (indexOf hs) ls) \<longleftrightarrow>
          0 \<notin> set (map (indexOf hs) ls) \<and> distinct (map (indexOf hs) ls)"
    by (rule distinct.simps(2))
  then show ?thesis using d z by blast
qed

lemma picked_indexes_distinct:
  assumes "set items \<subseteq> set (options hs lastUsed)"
  shows "distinct (0 # map (\<lambda>item. indexOf hs (label item)) items) \<longleftrightarrow>
           distinct (map label items) \<and> hd hs \<notin> set (map label items)"
proof -
  have "\<And>item. item \<in> set items \<Longrightarrow> label item \<in> set hs"
    using assms options_label by blast
  then have labs: "set (map label items) \<subseteq> set hs" by auto
  have m: "map (\<lambda>item. indexOf hs (label item)) items = map (indexOf hs) (map label items)"
    by simp
  show ?thesis
    unfolding m by (rule indexes_distinct[OF labs])
qed

lemma selectColumns_picked:
  "items \<noteq> [] \<Longrightarrow>
   selectColumns lastUsedColumns hs fileName (Some items) =
     (Some (0 # map (\<lambda>item. indexOf hs (label item)) items),
      lastUsedColumns(fileName \<mapsto> map (\<lambda>item. indexOf hs (label item)) items))"
  by (simp add: selectColumns_def Let_def)

lemma selectColumns_fallback:
  "selectedItems = None \<or> selectedItems = Some [] \<Longrightarrow>
   selectColumns lastUsedColumns hs fileName selectedItems =
     ((case lastUsedColumns fileName of None \<Rightarrow> None | Some prior \<Rightarrow> Some (0 # prior)),
      lastUsedColumns)"
  by (auto simp: selectColumns_def split: option.splits)

text \<open>
  C7 (shape of a selection), as the claim states it: every selection returned is a
  sequence of distinct indices that starts with \<open>0\<close>, and the user cannot toggle index
  \<open>0\<close>. The options offered are all the headers, the first one included (not marked
  beforehand when nothing is stored). A user who confirms both options of the headers
  \<open>x, y\<close> gets \<open>[0, 0, 1]\<close>.
\<close>

theorem selection_counterexample:
  "fst (selectColumns Map.empty [js ''x'', js ''y''] (js ''doc'')
          (Some (options [js ''x'', js ''y''] None))) = Some [0, 0, 1]
   \<and> \<not> distinct [0 :: int, 0, 1]"
  by code_simp

text \<open>
  C7 (shape of a selection), amended: every selection returned starts with index \<open>0\<close>;
  after a confirmed pick that is not empty the rest is the first-match header index of
  each picked label, in the order of the pick, and on the fallback the rest is the stored
  prior selection. After a confirmed pick of offered items the selection is a sequence
  of distinct indices exactly when the picked labels are pairwise distinct and the label
  of the first header is not among them.
\<close>

theorem selection_starts_with_0:
  "fst (selectColumns lastUsedColumns hs fileName selectedItems) = Some sel \<Longrightarrow>
   (\<exists>rest. sel = 0 # rest
      \<and> (case selectedItems of
            Some (item # items) \<Rightarrow> rest = map (\<lambda>item. indexOf hs (label item)) (item # items)
          | _ \<Rightarrow> lastUsedColumns fileName = Some rest))
   \<and> (\<forall>items. selectedItems = Some items \<and> items \<noteq> []
          \<and> set items \<subseteq> set (options hs (lastUsedColumns fileName)) \<longrightarrow>
        (distinct sel \<longleftrightarrow> distinct (map label items) \<and> hd hs \<notin> set (map label items)))"
proof -
  assume r: "fst (selectColumns lastUsedColumns hs fileName selectedItems) = Some sel"
  have fb: "\<exists>rest. sel = 0 # rest \<and> lastUsedColumns fileName = Some rest"
    if "selectedItems = None \<or> selectedItems = Some []"
  proof -
    have "(case lastUsedColumns fileName of None \<Rightarrow> None | Some prior \<Rightarrow> Some (0 # prior)) = Some sel"
      using r selectColumns_fallback[OF that, of lastUsedColumns hs fileName] by simp
    then show ?thesis by (cases "lastUsedColumns fileName") auto
  qed
  have pk: "sel = 0 # map (\<lambda>item. indexOf hs (label item)) items"
    if "selectedItems = Some items" "items \<noteq> []" for items
    using r selectColumns_picked[OF that(2), of lastUsedColumns hs fileName] that(1) by simp
  have a: "\<exists>rest. sel = 0 # rest
      \<and> (case selectedItems of
            Some (item # items) \<Rightarrow> rest = map (\<lambda>item. indexOf hs (label item)) (item # items)
          | _ \<Rightarrow> lastUsedColumns fileName = Some rest)"
  proof (cases selectedItems)
    case None
    then show ?thesis using fb by simp
  next
    case (Some items)
    show ?thesis
    proof (cases items)
      case Nil
      then show ?thesis using fb Some by simp
    next
      case (Cons it its)
      then show ?thesis using pk[of items] Some by simp
    qed
  qed
  have b: "distinct sel \<longleftrightarrow> distinct (map label items) \<and> hd hs \<notin> set (map label items)"
    if h: "selectedItems = Some items \<and> items \<noteq> []
          \<and> set items \<subseteq> set (options hs (lastUsedColumns fileName))" for items
  proof -
    have s: "sel = 0 # map (\<lambda>item. indexOf hs (label item)) items"
      using pk[of items] h by blast
    have sub: "set items \<subseteq> set (options hs (lastUsedColumns fileName))"
      using h by blast
    show ?thesis
      unfolding s by (rule picked_indexes_distinct[OF sub])
  qed
  show ?thesis
  proof (intro conjI allI impI)
    show "\<exists>rest. sel = 0 # rest
      \<and> (case selectedItems of
            Some (item # items) \<Rightarrow> rest = map (\<lambda>item. indexOf hs (label item)) (item # items)
          | _ \<Rightarrow> lastUsedColumns fileName = Some rest)"
      by (rule a)
    show "distinct sel \<longleftrightarrow> distinct (map label items) \<and> hd hs \<notin> set (map label items)"
      if "selectedItems = Some items \<and> items \<noteq> []
          \<and> set items \<subseteq> set (options hs (lastUsedColumns fileName))" for items
      by (rule b[OF that])
  qed
qed

text \<open>Picking \<open>y\<close> and \<open>z\<close> out of \<open>x, y, z\<close> gives \<open>[0, 1, 2]\<close>, which is distinct.\<close>

theorem selection_starts_with_0_witness:
  "fst (selectColumns Map.empty [js ''x'', js ''y'', js ''z''] (js ''doc'')
          (Some [\<lparr> label = js ''y'', picked = True \<rparr>, \<lparr> label = js ''z'', picked = True \<rparr>]))
     = Some [0, 1, 2]
   \<and> distinct [0 :: int, 1, 2]"
proof -
  let ?hs = "[js ''x'', js ''y'', js ''z'']"
  let ?items = "[\<lparr> label = js ''y'', picked = True \<rparr>, \<lparr> label = js ''z'', picked = True \<rparr>]"
  have r: "fst (selectColumns Map.empty ?hs (js ''doc'') (Some ?items)) = Some [0, 1, 2]"
    by code_simp
  have o: "options ?hs None =
      [\<lparr> label = js ''x'', picked = False \<rparr>, \<lparr> label = js ''y'', picked = True \<rparr>,
       \<lparr> label = js ''z'', picked = True \<rparr>]"
    by code_simp
  have sub: "set ?items \<subseteq> set (options ?hs (Map.empty (js ''doc'')))"
    unfolding empty_def o by simp
  have lab: "distinct (map label ?items) \<and> hd ?hs \<notin> set (map label ?items)"
    by (simp add: js_def)
  have ne: "?items \<noteq> []" by simp
  have "distinct [0 :: int, 1, 2]"
    using selection_starts_with_0[OF r] sub lab ne by blast
  then show ?thesis using r by simp
qed

section \<open>Properties of the base series\<close>

text \<open>
  Building the base series uses \<open>map\<close>, indexing, \<open>parseFloat\<close> and \<open>isNaN\<close>, none of
  which throws on an array of arrays of strings: an index outside a row or outside the
  headers gives \<open>undefined\<close>, which \<open>parseFloat\<close> reads as the string \<open>undefined\<close> and so
  as \<open>NaN\<close>. The model has no error value because the code has no failing step.
\<close>

lemma unsigned_literal_not_NaN: "unsigned_literal s = Some (v, r) \<Longrightarrow> v \<noteq> NaN"
  by (auto simp: unsigned_literal_def Let_def split: if_splits prod.splits)

lemma decimal_literal_not_NaN: "decimal_literal s = Some (v, r) \<Longrightarrow> v \<noteq> NaN"
proof -
  assume a: "decimal_literal s = Some (v, r)"
  have neg: "\<And>w. w \<noteq> NaN \<Longrightarrow> num_neg w \<noteq> NaN"
    by (case_tac w) simp_all
  show ?thesis
    using a unsigned_literal_not_NaN neg
    by (fastforce simp: decimal_literal_def split: if_splits option.splits prod.splits)
qed

lemma parseFloat_undefined: "parseFloat None = NaN"
  by code_simp

lemma cell_missing: "js_index row c = None \<Longrightarrow> cell row c = Null"
  by (simp add: cell_def parseFloat_undefined)

lemma cell_field:
  "js_index row c = Some fld \<Longrightarrow>
   cell row c = (case decimal_literal (trimStart fld) of None \<Rightarrow> Null | Some (v, r) \<Rightarrow> Num v)"
proof (cases "decimal_literal (trimStart fld)")
  case None
  assume "js_index row c = Some fld"
  then show ?thesis using None by (simp add: cell_def parseFloat_def)
next
  case (Some p)
  assume f: "js_index row c = Some fld"
  obtain v r where p: "p = (v, r)" by (cases p)
  have "v \<noteq> NaN" using Some p decimal_literal_not_NaN by blast
  then have "\<not> isNaN v" by (cases v) simp_all
  then show ?thesis using f Some p by (simp add: cell_def parseFloat_def)
qed

lemma no_literal_start:
  assumes "s = [] \<or> (\<not> is_digit (hd s) \<and> hd s \<noteq> 0x2B \<and> hd s \<noteq> 0x2D \<and> hd s \<noteq> 0x2E \<and> hd s \<noteq> 0x49)"
  shows "decimal_literal s = None"
proof (cases s)
  case Nil
  then show ?thesis
    by (simp add: decimal_literal_def unsigned_literal_def js_def)
next
  case (Cons c cs)
  then have c: "\<not> is_digit c" "c \<noteq> 0x2B" "c \<noteq> 0x2D" "c \<noteq> 0x2E" "c \<noteq> 0x49"
    using assms by simp_all
  have "take 8 s \<noteq> js ''Infinity''"
    using c(5) Cons by (simp add: js_def)
  then have "unsigned_literal s = None"
    using c Cons by (simp add: unsigned_literal_def)
  then show ?thesis using c Cons by (simp add: decimal_literal_def)
qed

lemma base_series_nth:
  assumes "j < length sel - 1"
  shows "base_series hs d sel ! j =
           \<lparr> name = js_index hs (sel ! (j + 1)),
             data = map (\<lambda>row. cell row (sel ! (j + 1))) d,
             dashStyle = None, marker = None \<rparr>"
  using assms by (simp add: base_series_def slice_from_1)

text \<open>
  C9 (the base series), as the claim states it: a field that is not a valid number
  yields an absent data point. The field \<open>12abc\<close> is not a valid number, and the code
  yields \<open>12\<close> for it: \<open>parseFloat\<close> reads the longest numeric prefix and ignores the
  rest.
\<close>

theorem not_a_valid_number_counterexample:
  "\<not> valid_number (js ''12abc'')
   \<and> data (base_series [js ''c'', js ''a''] [[js ''r'', js ''12abc'']] [0, 1] ! 0)
       = [Num (Fin 12)]"
  by code_simp

text \<open>
  C9 (the base series), amended: for all headers, rows and selections there is one base
  series for each selected column after the first, with one data point for each row.
  The data point is absent when the row has no field at the column, and when the
  field, leading white space apart, does not start with a decimal literal (so when it
  is empty or starts with a code unit that is no digit, sign, point or \<open>I\<close>; the empty
  field and \<open>abc\<close> are such). Otherwise it is the value of the longest literal the field
  starts with, whatever follows it.
\<close>

theorem base_series_cells:
  "length (base_series hs d sel) = length sel - 1
   \<and> (\<forall>j. j < length sel - 1 \<longrightarrow>
         length (data (base_series hs d sel ! j)) = length d
         \<and> (\<forall>i. i < length d \<longrightarrow>
               data (base_series hs d sel ! j) ! i = cell (d ! i) (sel ! (j + 1))))
   \<and> (\<forall>row c. js_index row c = None \<longrightarrow> cell row c = Null)
   \<and> (\<forall>row c fld. js_index row c = Some fld \<longrightarrow>
         cell row c =
           (case decimal_literal (trimStart fld) of None \<Rightarrow> Null | Some (v, r) \<Rightarrow> Num v))
   \<and> (\<forall>row c fld. js_index row c = Some fld
           \<and> (trimStart fld = []
                \<or> (\<not> is_digit (hd (trimStart fld)) \<and> hd (trimStart fld) \<noteq> 0x2B
                   \<and> hd (trimStart fld) \<noteq> 0x2D \<and> hd (trimStart fld) \<noteq> 0x2E
                   \<and> hd (trimStart fld) \<noteq> 0x49)) \<longrightarrow>
         cell row c = Null)
   \<and> cell [js ''''] 0 = Null \<and> cell [js ''abc''] 0 = Null"
proof (intro conjI allI impI)
  show "length (base_series hs d sel) = length sel - 1"
    by (rule length_base_series)
  show "length (data (base_series hs d sel ! j)) = length d" if "j < length sel - 1" for j
    by (simp add: base_series_nth[OF that])
  show "data (base_series hs d sel ! j) ! i = cell (d ! i) (sel ! (j + 1))"
    if "j < length sel - 1" "i < length d" for j i
    using that(2) by (simp add: base_series_nth[OF that(1)])
  show "cell row c = Null" if "js_index row c = None" for row c
    by (rule cell_missing[OF that])
  show "cell row c =
           (case decimal_literal (trimStart fld) of None \<Rightarrow> Null | Some (v, r) \<Rightarrow> Num v)"
    if "js_index row c = Some fld" for row c fld
    by (rule cell_field[OF that])
  show "cell row c = Null"
    if h: "js_index row c = Some fld
           \<and> (trimStart fld = []
                \<or> (\<not> is_digit (hd (trimStart fld)) \<and> hd (trimStart fld) \<noteq> 0x2B
                   \<and> hd (trimStart fld) \<noteq> 0x2D \<and> hd (trimStart fld) \<noteq> 0x2E
                   \<and> hd (trimStart fld) \<noteq> 0x49))" for row c fld
  proof -
    have "decimal_literal (trimStart fld) = None"
      using h by (intro no_literal_start) blast
    then show ?thesis using cell_field[of row c fld] h by simp
  qed
  show "cell [js ''''] 0 = Null" by code_simp
  show "cell [js ''abc''] 0 = Null" by code_simp
qed

text \<open>
  A column with the cells \<open>abc\<close>, none (the row is short) and \<open>7.5kg\<close> after a space:
  absent, absent and \<open>7.5\<close>.
\<close>

theorem base_series_cells_witness:
  "map data (base_series [js ''c'', js ''a'']
               [[js ''r1'', js ''abc''], [js ''r2''], [js ''r3'', js '' 7.5kg'']] [0, 1])
     = [[Null, Null, Num (Fin (15 / 2))]]"
proof -
  let ?hs = "[js ''c'', js ''a'']"
  let ?d = "[[js ''r1'', js ''abc''], [js ''r2''], [js ''r3'', js '' 7.5kg'']]"
  let ?b = "base_series ?hs ?d [0, 1]"
  note t = base_series_cells[of ?hs ?d "[0, 1]"]
  have len: "length ?b = 1" using t by simp
  have t2: "\<forall>j. j < length [0 :: int, 1] - 1 \<longrightarrow>
         length (data (?b ! j)) = length ?d
         \<and> (\<forall>i. i < length ?d \<longrightarrow> data (?b ! j) ! i = cell (?d ! i) ([0, 1] ! (j + 1)))"
    using t by blast
  have t3: "\<forall>row c. js_index row c = None \<longrightarrow> cell row c = Null"
    using t by blast
  have t4: "\<forall>row c fld. js_index row c = Some fld \<longrightarrow>
         cell row c =
           (case decimal_literal (trimStart fld) of None \<Rightarrow> Null | Some (v, r) \<Rightarrow> Num v)"
    using t by blast
  have t5: "\<forall>row c fld. js_index row c = Some fld
           \<and> (trimStart fld = []
                \<or> (\<not> is_digit (hd (trimStart fld)) \<and> hd (trimStart fld) \<noteq> 0x2B
                   \<and> hd (trimStart fld) \<noteq> 0x2D \<and> hd (trimStart fld) \<noteq> 0x2E
                   \<and> hd (trimStart fld) \<noteq> 0x49)) \<longrightarrow>
         cell row c = Null"
    using t by blast
  have j: "(0::nat) < length [0 :: int, 1] - 1" by simp
  have dl: "length (data (?b ! 0)) = 3"
    using t2[rule_format, OF j] by simp
  have pt: "i < 3 \<Longrightarrow> data (?b ! 0) ! i = cell (?d ! i) 1" for i
    using t2[rule_format, OF j] by simp
  have c0: "cell [js ''r1'', js ''abc''] 1 = Null"
  proof -
    have a: "js_index [js ''r1'', js ''abc''] 1 = Some (js ''abc'')"
      by (simp add: js_index_def)
    have h: "hd (trimStart (js ''abc'')) = 0x61" by code_simp
    have nd: "\<not> is_digit 0x61" by (simp add: is_digit_def)
    show ?thesis
      by (rule t5[rule_format, of _ _ "js ''abc''"]) (simp add: a h nd)
  qed
  have c1: "cell [js ''r2''] 1 = Null"
    by (rule t3[rule_format]) (simp add: js_index_def)
  have c2: "cell [js ''r3'', js '' 7.5kg''] 1 = Num (Fin (15 / 2))"
  proof -
    have a: "js_index [js ''r3'', js '' 7.5kg''] 1 = Some (js '' 7.5kg'')"
      by (simp add: js_index_def)
    have b: "decimal_literal (trimStart (js '' 7.5kg'')) = Some (Fin (15 / 2), js ''kg'')"
      by code_simp
    have "cell [js ''r3'', js '' 7.5kg''] 1 =
           (case decimal_literal (trimStart (js '' 7.5kg'')) of None \<Rightarrow> Null | Some (v, r) \<Rightarrow> Num v)"
      by (rule t4[rule_format, OF a])
    then show ?thesis unfolding b by simp
  qed
  have e0: "data (?b ! 0) ! 0 = Null" using pt[of 0] c0 by simp
  have e1: "data (?b ! 0) ! 1 = Null" using pt[of 1] c1 by simp
  have e2: "data (?b ! 0) ! 2 = Num (Fin (15 / 2))" using pt[of 2] c2 by simp
  have "data (?b ! 0) = [data (?b ! 0) ! 0, data (?b ! 0) ! 1, data (?b ! 0) ! 2]"
    using dl by (auto simp: list_eq_iff_nth_eq less_Suc_eq numeral_eq_Suc)
  then have d: "data (?b ! 0) = [Null, Null, Num (Fin (15 / 2))]"
    unfolding e0 e1 e2 .
  have "?b = [?b ! 0]"
    using len by (auto simp: list_eq_iff_nth_eq)
  then have "map data ?b = map data [?b ! 0]" by (rule arg_cong)
  then show ?thesis unfolding d list.map .
qed

section \<open>Properties of the statistic overlays\<close>

subsection \<open>Maximum, minimum and average\<close>

lemma createStatSeries_data:
  "data (createStatSeries s statName f) =
     replicate (length (data s)) (Num (f (filter (\<lambda>v. v \<noteq> Null) (data s))))"
  by (simp add: createStatSeries_def Let_def map_replicate_const)

lemma stat_max_two: "2 \<le> length arr \<Longrightarrow> stat_max arr = NaN"
proof -
  assume "2 \<le> length arr"
  then obtain v w vs where "arr = v # w # vs"
    by (cases arr; cases "tl arr") auto
  then show ?thesis by (simp add: stat_max_def Math_max_def)
qed

lemma stat_min_two: "2 \<le> length arr \<Longrightarrow> stat_min arr = NaN"
proof -
  assume "2 \<le> length arr"
  then obtain v w vs where "arr = v # w # vs"
    by (cases arr; cases "tl arr") auto
  then show ?thesis by (simp add: stat_min_def Math_min_def)
qed

lemma max_overlay_NaN:
  "2 \<le> length (filter (\<lambda>v. v \<noteq> Null) (data s)) \<Longrightarrow>
   data (createStatSeries s (js ''Max'') stat_max) = replicate (length (data s)) (Num NaN)"
  by (simp add: createStatSeries_data stat_max_two)

lemma avg_sum_finite:
  "list_all finite_or_absent vs \<Longrightarrow>
   foldl (\<lambda>a b. num_add a (ToNumber b)) (Fin a) vs = Fin (a + sum_list (map value_or_zero vs))"
proof (induction vs arbitrary: a)
  case Nil
  then show ?case by simp
next
  case (Cons v vs)
  have "num_add (Fin a) (ToNumber v) = Fin (a + value_or_zero v)"
    using Cons.prems by (cases v rule: finite_or_absent.cases) simp_all
  then show ?case using Cons by (simp add: add.assoc)
qed

lemma average_overlay_mean:
  assumes "list_all finite_or_absent (data s)"
    and "filter (\<lambda>v. v \<noteq> Null) (data s) \<noteq> []"
  shows "data (createStatSeries s (js ''Avg'') stat_avg) =
           replicate (length (data s))
             (Num (Fin (sum_list (map value_or_zero (filter (\<lambda>v. v \<noteq> Null) (data s)))
                        / of_nat (length (filter (\<lambda>v. v \<noteq> Null) (data s))))))"
proof -
  let ?vs = "filter (\<lambda>v. v \<noteq> Null) (data s)"
  have "list_all finite_or_absent ?vs"
    using assms(1) by (simp add: list_all_iff)
  then have "foldl (\<lambda>a b. num_add a (ToNumber b)) (Fin 0) ?vs =
               Fin (sum_list (map value_or_zero ?vs))"
    using avg_sum_finite[of ?vs 0] by simp
  moreover have "length ?vs \<noteq> 0" using assms(2) by simp
  ultimately have "stat_avg ?vs = Fin (sum_list (map value_or_zero ?vs) / of_nat (length ?vs))"
    by (simp add: stat_avg_def)
  then show ?thesis by (simp add: createStatSeries_data)
qed

text \<open>
  C1 (Max and Average overlays). The claim: the Max overlay is a flat series at the
  maximum of the non-absent values, and the Average overlay a flat series at their mean;
  for the base data \<open>[1, absent, 3]\<close> Max is \<open>[3,3,3]\<close> and Average \<open>[2,2,2]\<close>.
  The code passes \<open>Math.max\<close> itself as \<open>statFunction\<close> and calls it with the filtered
  array as its one argument, so with two or more non-absent values the Max overlay is
  \<open>NaN\<close> at every point (lemma \<open>max_overlay_NaN\<close>), while the Average overlay is the
  mean (lemma \<open>average_overlay_mean\<close>). Here the file has the rows \<open>r1;1\<close>, \<open>r2;\<close> and
  \<open>r3;3\<close> under the headers \<open>c;a\<close>: the base series is \<open>[1, null, 3]\<close>, the Max
  overlay is \<open>[NaN, NaN, NaN]\<close> and the Average overlay is \<open>[2, 2, 2]\<close>.
\<close>

theorem max_overlay_of_two_values_is_NaN:
  "map data (series (processData [js ''c'', js ''a'']
       [[js ''r1'', js ''1''], [js ''r2'', js ''''], [js ''r3'', js ''3'']]
       [0, 1] [js ''Max'', js ''Average''] \<lparr> sma = 20, ema = 20 \<rparr>))
   = [[Num (Fin 1), Null, Num (Fin 3)],
      [Num NaN, Num NaN, Num NaN],
      [Num (Fin 2), Num (Fin 2), Num (Fin 2)]]"
  by code_simp

subsection \<open>The simple moving average\<close>

lemma take_drop_map_nth:
  "m + n \<le> length xs \<Longrightarrow> take n (drop m xs) = map (\<lambda>j. xs ! j) [m..<m + n]"
  by (rule nth_equalityI) simp_all

lemma sma_window:
  assumes "0 < p" "p - 1 \<le> int i" "i < length d"
  shows "js_slice d (int i - p + 1) (int i + 1) = map (\<lambda>j. d ! j) [i + 1 - nat p..<i + 1]"
proof -
  have k: "slice_pos (length d) (int i - p + 1) = i + 1 - nat p"
    using assms by (auto simp: slice_pos_def)
  have f: "slice_pos (length d) (int i + 1) = i + 1"
    using assms by (auto simp: slice_pos_def)
  have n: "i + 1 - (i + 1 - nat p) = nat p" and le: "(i + 1 - nat p) + nat p \<le> length d"
    using assms by auto
  have "take (nat p) (drop (i + 1 - nat p) d) =
          map (\<lambda>j. d ! j) [i + 1 - nat p..<(i + 1 - nat p) + nat p]"
    by (rule take_drop_map_nth[OF le])
  moreover have "(i + 1 - nat p) + nat p = i + 1" using assms by auto
  ultimately show ?thesis by (simp add: js_slice_def k f n)
qed

lemma sma_sum_finite:
  "list_all finite_or_absent vs \<Longrightarrow>
   foldl (\<lambda>sum v. num_add sum (ToNumber (or_zero v))) (Fin a) vs =
     Fin (a + sum_list (map value_or_zero vs))"
proof (induction vs arbitrary: a)
  case Nil
  then show ?case by simp
next
  case (Cons v vs)
  have "num_add (Fin a) (ToNumber (or_zero v)) = Fin (a + value_or_zero v)"
    using Cons.prems by (cases v rule: finite_or_absent.cases) (simp_all add: or_zero_def)
  then show ?case using Cons by (simp add: add.assoc)
qed

lemma sma_avg_finite:
  "0 < p \<Longrightarrow> list_all finite_or_absent vs \<Longrightarrow>
   sma_avg vs p = Fin (sum_list (map value_or_zero vs) / of_int p)"
  by (simp add: sma_avg_def sma_sum_finite)

lemma createSMA_data: "data (createSMA s p) = map (sma_point (data s) p) [0..<length (data s)]"
  by (simp add: createSMA_def sma_loop_eq)

text \<open>
  C2 (simple moving average). For a positive integer period \<open>p\<close> the SMA overlay has one
  value per base value; the value at an index \<open>i < p - 1\<close> is absent, and the value at
  an index \<open>i \<ge> p - 1\<close> is the sum of the \<open>p\<close> base values ending at \<open>i\<close>, an absent
  value counting as \<open>0\<close>, divided by \<open>p\<close>. The third part states this in the
  arithmetic of the language (a base value can be an infinity); the fourth states it
  for a window of finite values as the rational sum over the window divided by \<open>p\<close>.
\<close>

theorem sma_overlay:
  "0 < p \<Longrightarrow>
   length (data (createSMA s p)) = length (data s)
   \<and> (\<forall>i. i < length (data s) \<and> int i < p - 1 \<longrightarrow> data (createSMA s p) ! i = Null)
   \<and> (\<forall>i. i < length (data s) \<and> p - 1 \<le> int i \<longrightarrow>
          data (createSMA s p) ! i =
            Num (sma_avg (map (\<lambda>j. data s ! j) [i + 1 - nat p..<i + 1]) p))
   \<and> (\<forall>i. i < length (data s) \<and> p - 1 \<le> int i
            \<and> list_all (\<lambda>j. finite_or_absent (data s ! j)) [i + 1 - nat p..<i + 1] \<longrightarrow>
          data (createSMA s p) ! i =
            Num (Fin ((\<Sum>j = i + 1 - nat p..i. value_or_zero (data s ! j)) / of_int p)))"
proof (intro conjI allI impI)
  assume p: "0 < p"
  show "length (data (createSMA s p)) = length (data s)"
    by (simp add: createSMA_data)
  show "data (createSMA s p) ! i = Null" if "i < length (data s) \<and> int i < p - 1" for i
    using that by (simp add: createSMA_data sma_point_def)
  show w: "data (createSMA s p) ! i =
          Num (sma_avg (map (\<lambda>j. data s ! j) [i + 1 - nat p..<i + 1]) p)"
    if "i < length (data s) \<and> p - 1 \<le> int i" for i
    using that p sma_window[of p i "data s"] by (simp add: createSMA_data sma_point_def)
  show "data (createSMA s p) ! i =
          Num (Fin ((\<Sum>j = i + 1 - nat p..i. value_or_zero (data s ! j)) / of_int p))"
    if h: "i < length (data s) \<and> p - 1 \<le> int i
        \<and> list_all (\<lambda>j. finite_or_absent (data s ! j)) [i + 1 - nat p..<i + 1]" for i
  proof -
    have fin: "list_all finite_or_absent (map (\<lambda>j. data s ! j) [i + 1 - nat p..<i + 1])"
      using h by (simp add: list_all_iff)
    have "sum_list (map (\<lambda>j. value_or_zero (data s ! j)) [i + 1 - nat p..<Suc i]) =
            sum (\<lambda>j. value_or_zero (data s ! j)) (set [i + 1 - nat p..<Suc i])"
      by (rule interv_sum_list_conv_sum_set_nat)
    also have "set [i + 1 - nat p..<Suc i] = {i + 1 - nat p..i}"
      by (simp only: set_upt atLeastLessThanSuc_atLeastAtMost)
    finally have "sum_list (map value_or_zero (map (\<lambda>j. data s ! j) [i + 1 - nat p..<i + 1])) =
            (\<Sum>j = i + 1 - nat p..i. value_or_zero (data s ! j))"
      by (simp only: map_map comp_def Suc_eq_plus1)
    then show ?thesis
      using w[of i] h sma_avg_finite[OF p fin] by simp
  qed
qed

text \<open>The base data \<open>[1,2,3,4,5]\<close> with period 3 gives \<open>[null,null,2,3,4]\<close>.\<close>

theorem sma_overlay_witness:
  "data (createSMA \<lparr> name = Some (js ''a''), data = [Num (Fin 1), Num (Fin 2), Num (Fin 3), Num (Fin 4), Num (Fin 5)],
                     dashStyle = None, marker = None \<rparr> 3)
     = [Null, Null, Num (Fin 2), Num (Fin 3), Num (Fin 4)]"
proof -
  let ?s = "\<lparr> name = Some (js ''a''), data = [Num (Fin 1), Num (Fin 2), Num (Fin 3), Num (Fin 4), Num (Fin 5)],
              dashStyle = None, marker = None \<rparr>"
  let ?out = "data (createSMA ?s 3)"
  have p: "(0::int) < 3" by simp
  note t = sma_overlay[OF p, of ?s]
  have len: "length ?out = 5" using t by simp
  have c2: "\<forall>i. i < length (data ?s) \<and> int i < 3 - 1 \<longrightarrow> ?out ! i = Null"
    using t by blast
  have c3: "\<forall>i. i < length (data ?s) \<and> 3 - 1 \<le> int i \<longrightarrow>
          ?out ! i = Num (sma_avg (map (\<lambda>j. data ?s ! j) [i + 1 - nat 3..<i + 1]) 3)"
    using t by blast
  have e0: "?out ! 0 = Null" using c2[rule_format, of 0] by simp
  have e1: "?out ! 1 = Null" using c2[rule_format, of 1] by simp
  have u2: "[2 + 1 - nat 3..<2 + 1] = [0,1,2::nat]" by (simp add: upt_rec)
  have u3: "[3 + 1 - nat 3..<3 + 1] = [1,2,3::nat]" by (simp add: upt_rec)
  have u4: "[4 + 1 - nat 3..<4 + 1] = [2,3,4::nat]" by (simp add: upt_rec)
  have e2: "?out ! 2 = Num (Fin 2)"
    using c3[rule_format, of 2] unfolding u2 by (simp add: sma_avg_def or_zero_def)
  have e3: "?out ! 3 = Num (Fin 3)"
    using c3[rule_format, of 3] unfolding u3 by (simp add: sma_avg_def or_zero_def)
  have e4: "?out ! 4 = Num (Fin 4)"
    using c3[rule_format, of 4] unfolding u4 by (simp add: sma_avg_def or_zero_def)
  have "?out = [?out ! 0, ?out ! 1, ?out ! 2, ?out ! 3, ?out ! 4]"
    using len by (auto simp: list_eq_iff_nth_eq less_Suc_eq numeral_eq_Suc)
  then show ?thesis
    unfolding e0 e1 e2 e3 e4 .
qed

subsection \<open>The exponential moving average\<close>

lemma ema_k_pos: "0 < p \<Longrightarrow> ema_k p = Fin (2 / of_int (p + 1))"
  by (simp add: ema_k_def)

lemma ema_scan_length: "length (ema_scan k e vs) = length vs"
  by (induction vs arbitrary: e) simp_all

lemma ema_scan_nth_0: "vs \<noteq> [] \<Longrightarrow> ema_scan k e vs ! 0 = ema_step k e (vs ! 0)"
  by (cases vs) simp_all

lemma ema_scan_nth_Suc:
  "Suc i < length vs \<Longrightarrow>
   ema_scan k e vs ! Suc i = ema_step k (ema_scan k e vs ! i) (vs ! Suc i)"
proof (induction vs arbitrary: e i)
  case Nil
  then show ?case by simp
next
  case (Cons v vs)
  show ?case
  proof (cases i)
    case 0
    then show ?thesis using Cons.prems by (simp add: ema_scan_nth_0)
  next
    case (Suc j)
    then show ?thesis using Cons.prems Cons.IH[of j "ema_step k e v"] by simp
  qed
qed

lemma createEMA_data:
  "data (createEMA s p) =
     data_at (data s) 0 # ema_scan (ema_k p) (data_at (data s) 0) (drop 1 (data s))"
  by (simp add: createEMA_def Let_def ema_loop_eq)

lemma createEMA_recurrence:
  assumes "data s \<noteq> []"
  shows "length (data (createEMA s p)) = length (data s)"
    and "data (createEMA s p) ! 0 = data s ! 0"
    and "0 < i \<Longrightarrow> i < length (data s) \<Longrightarrow>
         data (createEMA s p) ! i = ema_step (ema_k p) (data (createEMA s p) ! (i - 1)) (data s ! i)"
proof -
  let ?d = "data s"
  have at0: "data_at ?d 0 = ?d ! 0"
    using assms by (simp add: data_at_def js_index_def)
  have out: "data (createEMA s p) = ?d ! 0 # ema_scan (ema_k p) (?d ! 0) (drop 1 ?d)"
    by (simp add: createEMA_data at0)
  show "length (data (createEMA s p)) = length ?d"
    using assms by (simp add: out ema_scan_length)
  show "data (createEMA s p) ! 0 = ?d ! 0"
    by (simp add: out)
  show "data (createEMA s p) ! i = ema_step (ema_k p) (data (createEMA s p) ! (i - 1)) (?d ! i)"
    if "0 < i" "i < length ?d"
  proof (cases "i - 1")
    case 0
    then have i: "i = 1" using that by simp
    show ?thesis using that by (simp add: i out ema_scan_nth_0)
  next
    case (Suc j)
    then have i: "i = Suc (Suc j)" by simp
    have "Suc j < length (drop 1 ?d)" using that i by simp
    then show ?thesis by (simp add: i out ema_scan_nth_Suc)
  qed
qed

lemma ema_step_Null: "ema_step k e Null = e"
  by (simp add: ema_step_def)

lemma ema_step_present: "v \<noteq> Null \<Longrightarrow> \<exists>n. ema_step k e v = Num n"
  by (simp add: ema_step_def)

lemma ema_step_first:
  "ema_step (Fin kr) Null (Num v) = Num (num_mul v (Fin kr))"
  by (simp add: ema_step_def num_sub_def num_add_zero_right)

lemma ema_step_finite:
  "finite_or_absent v \<Longrightarrow> e = Null \<or> (\<exists>r. e = Num (Fin r)) \<Longrightarrow>
   ema_step (Fin kr) e v = e \<and> v = Null \<or> (\<exists>r. ema_step (Fin kr) e v = Num (Fin r))"
  by (cases v rule: finite_or_absent.cases) (auto simp: ema_step_def num_sub_def)

text \<open>
  C10 (EMA of a series that starts absent). Let the first value of the base series be
  absent and let \<open>i\<close> be the first index with a present value \<open>v\<close>. Then the first
  value of the EMA overlay is absent, the value at \<open>i\<close> is \<open>v * k\<close> with
  \<open>k = 2 / (p + 1)\<close> (the absent accumulator counts as \<open>0\<close>), and from \<open>i\<close> on every
  value is a number, never \<open>null\<close> again. A number here is what the code tests with
  \<open>!== null\<close>; the last part adds that over a base series of finite values every value
  from \<open>i\<close> on is a finite number (with the cells \<open>Infinity\<close> and \<open>-Infinity\<close> in one column
  the number can be \<open>NaN\<close>).
\<close>

theorem ema_absent_seed:
  "0 < p \<Longrightarrow> data s ! 0 = Null \<Longrightarrow> i < length (data s) \<Longrightarrow>
   (\<forall>j. j < i \<longrightarrow> data s ! j = Null) \<Longrightarrow> data s ! i = Num v \<Longrightarrow>
   data (createEMA s p) ! 0 = Null
   \<and> ema_k p = Fin (2 / of_int (p + 1))
   \<and> data (createEMA s p) ! i = Num (num_mul v (ema_k p))
   \<and> (\<forall>j. i \<le> j \<and> j < length (data s) \<longrightarrow> (\<exists>n. data (createEMA s p) ! j = Num n))
   \<and> (list_all finite_or_absent (data s) \<longrightarrow>
        (\<forall>j. i \<le> j \<and> j < length (data s) \<longrightarrow> (\<exists>r. data (createEMA s p) ! j = Num (Fin r))))"
proof -
  assume p: "0 < p" and d0: "data s ! 0 = Null" and i: "i < length (data s)"
    and before: "\<forall>j. j < i \<longrightarrow> data s ! j = Null" and di: "data s ! i = Num v"
  let ?d = "data s" and ?out = "data (createEMA s p)"
  have ne: "?d \<noteq> []" using i by auto
  note rec = createEMA_recurrence[OF ne, where p = p]
  have k: "ema_k p = Fin (2 / of_int (p + 1))" by (rule ema_k_pos[OF p])
  have ipos: "0 < i" using d0 di by (cases i) auto
  have o0: "?out ! 0 = Null" using rec(2) d0 by simp
  have pre: "j < i \<Longrightarrow> ?out ! j = Null" for j
  proof (induction j)
    case 0
    show ?case by (rule o0)
  next
    case (Suc j)
    have "?out ! Suc j = ema_step (ema_k p) (?out ! j) (?d ! Suc j)"
      using rec(3)[of "Suc j"] Suc.prems i by simp
    moreover have "?d ! Suc j = Null" using before Suc.prems by simp
    moreover have "?out ! j = Null" using Suc by simp
    ultimately show ?case by (simp add: ema_step_Null)
  qed
  have oi: "?out ! i = Num (num_mul v (ema_k p))"
  proof -
    have "?out ! i = ema_step (ema_k p) (?out ! (i - 1)) (?d ! i)"
      by (rule rec(3)[OF ipos i])
    moreover have "?out ! (i - 1) = Null" using pre[of "i - 1"] ipos by simp
    ultimately show ?thesis by (simp add: di k ema_step_first)
  qed
  have post: "i \<le> j \<Longrightarrow> j < length ?d \<Longrightarrow> \<exists>n. ?out ! j = Num n" for j
  proof (induction j)
    case 0
    then show ?case using oi by simp
  next
    case (Suc j)
    show ?case
    proof (cases "i = Suc j")
      case True
      then show ?thesis using oi by simp
    next
      case False
      then have ij: "i \<le> j" using Suc.prems by simp
      then obtain n where n: "?out ! j = Num n" using Suc by auto
      have r: "?out ! Suc j = ema_step (ema_k p) (?out ! j) (?d ! Suc j)"
        using rec(3)[of "Suc j"] Suc.prems by simp
      show ?thesis
      proof (cases "?d ! Suc j = Null")
        case True
        then show ?thesis using r n by (simp add: ema_step_Null)
      next
        case False
        then show ?thesis using r ema_step_present[OF False] by simp
      qed
    qed
  qed
  have fin: "\<exists>r. ?out ! j = Num (Fin r)"
    if all: "list_all finite_or_absent ?d" and "i \<le> j" "j < length ?d" for j
    using that(2,3)
  proof (induction j)
    case 0
    then have "i = 0" by simp
    then show ?case using ipos by simp
  next
    case (Suc j)
    have fd: "finite_or_absent (?d ! Suc j)"
      using all Suc.prems by (simp add: list_all_length)
    have r: "?out ! Suc j = ema_step (ema_k p) (?out ! j) (?d ! Suc j)"
      using rec(3)[of "Suc j"] Suc.prems by simp
    show ?case
    proof (cases "i = Suc j")
      case True
      have "finite_or_absent (Num v)" using fd di True by simp
      then obtain q where "v = Fin q" by (cases v) simp_all
      then show ?thesis using oi True k by simp
    next
      case False
      then have ij: "i \<le> j" using Suc.prems by simp
      then obtain q where q: "?out ! j = Num (Fin q)" using Suc by auto
      show ?thesis
        using ema_step_finite[OF fd, of "?out ! j" "2 / of_int (p + 1)"] q r k by auto
    qed
  qed
  show ?thesis
    using o0 k oi post fin by blast
qed

text \<open>The base data \<open>[null, 4, null, 8]\<close> with period 3: \<open>k = 1/2\<close> and the overlay starts \<open>null, 2\<close>.\<close>

theorem ema_absent_seed_witness:
  "data (createEMA \<lparr> name = Some (js ''a''), data = [Null, Num (Fin 4), Null, Num (Fin 8)],
                     dashStyle = None, marker = None \<rparr> 3) ! 0 = Null
   \<and> data (createEMA \<lparr> name = Some (js ''a''), data = [Null, Num (Fin 4), Null, Num (Fin 8)],
                     dashStyle = None, marker = None \<rparr> 3) ! 1 = Num (Fin 2)
   \<and> (\<exists>r. data (createEMA \<lparr> name = Some (js ''a''), data = [Null, Num (Fin 4), Null, Num (Fin 8)],
                     dashStyle = None, marker = None \<rparr> 3) ! 2 = Num (Fin r))
   \<and> (\<exists>r. data (createEMA \<lparr> name = Some (js ''a''), data = [Null, Num (Fin 4), Null, Num (Fin 8)],
                     dashStyle = None, marker = None \<rparr> 3) ! 3 = Num (Fin r))"
proof -
  let ?s = "\<lparr> name = Some (js ''a''), data = [Null, Num (Fin 4), Null, Num (Fin 8)],
              dashStyle = None, marker = None \<rparr>"
  have p: "(0::int) < 3" by simp
  have d0: "data ?s ! 0 = Null" by simp
  have i: "1 < length (data ?s)" by simp
  have before: "\<forall>j. j < (1::nat) \<longrightarrow> data ?s ! j = Null" by simp
  have di: "data ?s ! 1 = Num (Fin 4)" by simp
  note t = ema_absent_seed[OF p d0 i before di]
  have k: "ema_k 3 = Fin (1 / 2)" using t by simp
  have o0: "data (createEMA ?s 3) ! 0 = Null" using t by blast
  have o1: "data (createEMA ?s 3) ! 1 = Num (Fin 2)" using t k by simp
  have fin: "list_all finite_or_absent (data ?s)" by simp
  have all: "\<forall>j. 1 \<le> j \<and> j < length (data ?s) \<longrightarrow> (\<exists>r. data (createEMA ?s 3) ! j = Num (Fin r))"
    using t fin by blast
  have o2: "\<exists>r. data (createEMA ?s 3) ! 2 = Num (Fin r)" using all[rule_format, of 2] by simp
  have o3: "\<exists>r. data (createEMA ?s 3) ! 3 = Num (Fin r)" using all[rule_format, of 3] by simp
  show ?thesis using o0 o1 o2 o3 by blast
qed

text \<open>
  C3 (EMA recurrence, one value per input index). The claim: the EMA overlay is seeded
  with the first base value, follows the recurrence after it, and has exactly one value
  per input index. For a base series that is not empty all of this holds (lemma
  \<open>createEMA_recurrence\<close>). For a file with a header line and no data row the base
  series is empty, and the EMA overlay of the empty series holds one value,
  \<open>undefined\<close>: the seed is pushed before the loop looks at the length.
\<close>

theorem ema_of_empty_series_has_one_value:
  "parseFile (js ''c;a'') = (\<lparr> headers = [js ''c'', js ''a''], rows = [] \<rparr>, [])
   \<and> map data (series (processData [js ''c'', js ''a''] [] [0, 1] [js ''EMA'']
          \<lparr> sma = 20, ema = 3 \<rparr>)) = [[], [Undefined]]"
  by code_simp

section \<open>The order and the number of the series\<close>

lemma processData_series:
  "series (processData hs d sel statistics ps) =
     base_series hs d sel @
     concat (map (\<lambda>b. overlays b ps statistics) (base_series hs d sel))"
  by (simp add: processData_def Let_def series_forEach_eq)

lemma overlays_Nil: "overlays s ps [] = []"
  by (simp add: overlays_def)

lemma overlays_Cons: "overlays s ps (x # xs) = push_stat s ps [] x @ overlays s ps xs"
proof -
  have "foldl (push_stat s ps) (push_stat s ps [] x) xs = push_stat s ps [] x @ overlays s ps xs"
    by (rule foldl_push_stat)
  then show ?thesis by (simp add: overlays_def)
qed

lemma push_stat_known:
  "stat \<in> set known_statistics \<Longrightarrow> length (push_stat s ps [] stat) = 1"
  by (auto simp: push_stat_def known_statistics_def)

lemma overlays_known:
  "set statistics \<subseteq> set known_statistics \<Longrightarrow>
   length (overlays s ps statistics) = length statistics
   \<and> (\<forall>t. t < length statistics \<longrightarrow>
          push_stat s ps [] (statistics ! t) = [overlays s ps statistics ! t])"
proof (induction statistics)
  case Nil
  show ?case by (simp add: overlays_Nil)
next
  case (Cons x xs)
  have "length (push_stat s ps [] x) = 1"
    using Cons.prems by (simp add: push_stat_known)
  then obtain y where y: "push_stat s ps [] x = [y]"
    by (cases "push_stat s ps [] x") auto
  have ih: "length (overlays s ps xs) = length xs"
    "\<And>t. t < length xs \<Longrightarrow> push_stat s ps [] (xs ! t) = [overlays s ps xs ! t]"
    using Cons by auto
  show ?case
  proof (intro conjI allI impI)
    show "length (overlays s ps (x # xs)) = length (x # xs)"
      by (simp add: overlays_Cons y ih(1))
    show "push_stat s ps [] ((x # xs) ! t) = [overlays s ps (x # xs) ! t]"
      if "t < length (x # xs)" for t
      using that by (cases t) (simp_all add: overlays_Cons y ih(2))
  qed
qed

lemma concat_uniform:
  "(\<And>x. x \<in> set xss \<Longrightarrow> length x = n) \<Longrightarrow>
   length (concat xss) = length xss * n
   \<and> (\<forall>j t. j < length xss \<and> t < n \<longrightarrow> concat xss ! (j * n + t) = xss ! j ! t)"
proof (induction xss)
  case Nil
  show ?case by simp
next
  case (Cons xs xss)
  have lx: "length xs = n" using Cons.prems by simp
  have ih: "length (concat xss) = length xss * n"
    "\<And>j t. j < length xss \<Longrightarrow> t < n \<Longrightarrow> concat xss ! (j * n + t) = xss ! j ! t"
    using Cons by auto
  show ?case
  proof (intro conjI allI impI)
    show "length (concat (xs # xss)) = length (xs # xss) * n"
      by (simp add: lx ih(1))
    show "concat (xs # xss) ! (j * n + t) = (xs # xss) ! j ! t"
      if "j < length (xs # xss) \<and> t < n" for j t
    proof (cases j)
      case 0
      then show ?thesis using that lx by (simp add: nth_append)
    next
      case (Suc j')
      then have "j * n + t = n + (j' * n + t)" by simp
      then show ?thesis using that lx Suc ih(2)[of j' t] by (simp add: nth_append)
    qed
  qed
qed

text \<open>
  C4 (order of the output), as the claim states it: each base series is followed at once
  by its own overlays, before the next base series. With two base series \<open>a\<close> and \<open>b\<close>
  and the statistic Max the code returns \<open>a, b, a (Max), b (Max)\<close>, where the grouped
  order is \<open>a, a (Max), b, b (Max)\<close>: every overlay is pushed onto the end of the list
  that already holds all the base series.
\<close>

theorem grouped_order_counterexample:
  "map name (series (processData [js ''c'', js ''a'', js ''b''] [[js ''r'', js ''1'', js ''2'']]
        [0, 1, 2] [js ''Max''] \<lparr> sma = 20, ema = 20 \<rparr>))
     = [Some (js ''a''), Some (js ''b''), Some (js ''a (Max)''), Some (js ''b (Max)'')]
   \<and> map name (grouped_order
        (base_series [js ''c'', js ''a'', js ''b''] [[js ''r'', js ''1'', js ''2'']] [0, 1, 2])
        \<lparr> sma = 20, ema = 20 \<rparr> [js ''Max''])
     = [Some (js ''a''), Some (js ''a (Max)''), Some (js ''b''), Some (js ''b (Max)'')]
   \<and> series (processData [js ''c'', js ''a'', js ''b''] [[js ''r'', js ''1'', js ''2'']]
        [0, 1, 2] [js ''Max''] \<lparr> sma = 20, ema = 20 \<rparr>)
     \<noteq> grouped_order
        (base_series [js ''c'', js ''a'', js ''b''] [[js ''r'', js ''1'', js ''2'']] [0, 1, 2])
        \<lparr> sma = 20, ema = 20 \<rparr> [js ''Max'']"
proof -
  let ?out = "series (processData [js ''c'', js ''a'', js ''b''] [[js ''r'', js ''1'', js ''2'']]
        [0, 1, 2] [js ''Max''] \<lparr> sma = 20, ema = 20 \<rparr>)"
  let ?grp = "grouped_order
        (base_series [js ''c'', js ''a'', js ''b''] [[js ''r'', js ''1'', js ''2'']] [0, 1, 2])
        \<lparr> sma = 20, ema = 20 \<rparr> [js ''Max'']"
  have a: "map name ?out
     = [Some (js ''a''), Some (js ''b''), Some (js ''a (Max)''), Some (js ''b (Max)'')]"
    by code_simp
  have b: "map name ?grp
     = [Some (js ''a''), Some (js ''a (Max)''), Some (js ''b''), Some (js ''b (Max)'')]"
    by code_simp
  have ne: "js ''b'' \<noteq> js ''a (Max)''" by (simp add: js_def)
  have "map name ?out \<noteq> map name ?grp"
    unfolding a b using ne by simp
  then have "?out \<noteq> ?grp" by auto
  then show ?thesis using a b by blast
qed

text \<open>
  C4 (order of the output), amended: the output is all the base series in selection
  order, followed by the overlays, grouped by base series in selection order and within
  a group in request order.
\<close>

theorem overlays_follow_all_bases:
  "series (processData hs d sel statistics ps) =
     base_series hs d sel @
     concat (map (\<lambda>b. overlays b ps statistics) (base_series hs d sel))"
  by (rule processData_series)

theorem overlays_follow_all_bases_witness:
  "map name (series (processData [js ''c'', js ''a'', js ''b''] [[js ''r'', js ''1'', js ''2'']]
        [0, 1, 2] [js ''Max'', js ''EMA''] \<lparr> sma = 20, ema = 3 \<rparr>))
     = [Some (js ''a''), Some (js ''b''),
        Some (js ''a (Max)''), Some (js ''a (EMA 3)''),
        Some (js ''b (Max)''), Some (js ''b (EMA 3)'')]"
proof -
  have e: "map name
       (base_series [js ''c'', js ''a'', js ''b''] [[js ''r'', js ''1'', js ''2'']] [0, 1, 2] @
        concat (map (\<lambda>b. overlays b \<lparr> sma = 20, ema = 3 \<rparr> [js ''Max'', js ''EMA''])
          (base_series [js ''c'', js ''a'', js ''b''] [[js ''r'', js ''1'', js ''2'']] [0, 1, 2])))
     = [Some (js ''a''), Some (js ''b''),
        Some (js ''a (Max)''), Some (js ''a (EMA 3)''),
        Some (js ''b (Max)''), Some (js ''b (EMA 3)'')]"
    by code_simp
  show ?thesis
    unfolding overlays_follow_all_bases by (rule e)
qed

text \<open>
  C5 (number of series, overlays of base series only). With \<open>B\<close> base series (one per
  selected column after the first) and \<open>S\<close> requested statistics out of Max, Min,
  Average, SMA and EMA, the output holds \<open>B * (1 + S)\<close> series: the base series
  themselves, and at position \<open>B + j * S + t\<close> the one series that the statistic \<open>t\<close>
  yields for the base series \<open>j\<close>. So every derived series is computed from a base
  series, although the loop runs over the list it appends to: \<open>forEach\<close> visits only the
  positions that existed when it started.
\<close>

theorem one_overlay_per_base_and_statistic:
  "set statistics \<subseteq> set known_statistics \<Longrightarrow>
   length (base_series hs d sel) = length sel - 1
   \<and> length (series (processData hs d sel statistics ps)) =
       length (base_series hs d sel) * (1 + length statistics)
   \<and> (\<forall>j. j < length (base_series hs d sel) \<longrightarrow>
          series (processData hs d sel statistics ps) ! j = base_series hs d sel ! j)
   \<and> (\<forall>j t. j < length (base_series hs d sel) \<and> t < length statistics \<longrightarrow>
          push_stat (base_series hs d sel ! j) ps [] (statistics ! t) =
            [series (processData hs d sel statistics ps) !
               (length (base_series hs d sel) + j * length statistics + t)])"
proof -
  assume known: "set statistics \<subseteq> set known_statistics"
  let ?B = "base_series hs d sel"
  let ?S = "length statistics"
  let ?ov = "map (\<lambda>b. overlays b ps statistics) ?B"
  let ?out = "series (processData hs d sel statistics ps)"
  have out: "?out = ?B @ concat ?ov" by (rule processData_series)
  have uni: "\<And>x. x \<in> set ?ov \<Longrightarrow> length x = ?S"
    using overlays_known[OF known] by auto
  note cu = concat_uniform[of ?ov ?S, OF uni]
  have len: "length (concat ?ov) = length ?B * ?S" using cu by simp
  have a: "length ?out = length ?B * (1 + ?S)" by (simp add: out len)
  have b: "?out ! j = ?B ! j" if "j < length ?B" for j
    using that by (simp add: out nth_append)
  have c: "push_stat (?B ! j) ps [] (statistics ! t) = [?out ! (length ?B + j * ?S + t)]"
    if jt: "j < length ?B \<and> t < ?S" for j t
  proof -
    have "concat ?ov ! (j * ?S + t) = ?ov ! j ! t" using cu jt by simp
    then have "?out ! (length ?B + j * ?S + t) = overlays (?B ! j) ps statistics ! t"
      using jt by (simp add: out nth_append add.assoc)
    then show ?thesis using overlays_known[OF known, of "?B ! j" ps] jt by simp
  qed
  show ?thesis using a b c length_base_series[of hs d sel] by blast
qed

text \<open>
  Two base series and the statistics Max and EMA: six series, the last one the EMA
  overlay of the second base series.
\<close>

theorem one_overlay_per_base_and_statistic_witness:
  "length (series (processData [js ''c'', js ''a'', js ''b''] [[js ''r'', js ''1'', js ''2'']]
        [0, 1, 2] [js ''Max'', js ''EMA''] \<lparr> sma = 20, ema = 3 \<rparr>)) = 6
   \<and> series (processData [js ''c'', js ''a'', js ''b''] [[js ''r'', js ''1'', js ''2'']]
        [0, 1, 2] [js ''Max'', js ''EMA''] \<lparr> sma = 20, ema = 3 \<rparr>) ! 5
     = createEMA (base_series [js ''c'', js ''a'', js ''b''] [[js ''r'', js ''1'', js ''2'']] [0, 1, 2] ! 1) 3"
proof -
  let ?hs = "[js ''c'', js ''a'', js ''b'']" and ?d = "[[js ''r'', js ''1'', js ''2'']]"
  let ?st = "[js ''Max'', js ''EMA'']" and ?ps = "\<lparr> sma = 20, ema = 3 \<rparr>"
  have known: "set ?st \<subseteq> set known_statistics"
    by (simp add: known_statistics_def)
  note t = one_overlay_per_base_and_statistic[OF known, of ?hs ?d "[0, 1, 2]" ?ps]
  have lb: "length (base_series ?hs ?d [0, 1, 2]) = 2" using t by simp
  have len: "length (series (processData ?hs ?d [0, 1, 2] ?st ?ps)) = 6"
    using t lb by simp
  have "\<forall>j t. j < length (base_series ?hs ?d [0, 1, 2]) \<and> t < length ?st \<longrightarrow>
          push_stat (base_series ?hs ?d [0, 1, 2] ! j) ?ps [] (?st ! t) =
            [series (processData ?hs ?d [0, 1, 2] ?st ?ps) !
               (length (base_series ?hs ?d [0, 1, 2]) + j * length ?st + t)]"
    using t by blast
  from this[rule_format, of 1 1]
  have "push_stat (base_series ?hs ?d [0, 1, 2] ! 1) ?ps [] (js ''EMA'') =
          [series (processData ?hs ?d [0, 1, 2] ?st ?ps) ! 5]"
    by (simp add: lb)
  moreover have "push_stat b ?ps [] (js ''EMA'') = [createEMA b 3]" for b
    by (simp add: push_stat_def js_def)
  ultimately show ?thesis using len by simp
qed

end
